theory Spec2Isabelle
  imports Main "HOL-Library.AList" "HOL-Library.Sublist"
begin

section \<open>Data exchanged with the two remote systems\<close>

text \<open>
  The program \<^verbatim>\<open>gwbisync.py\<close> talks to Google Workspace (the source directory)
  and to Beyond Identity (the target, over SCIM and a native API).  Every remote call of
  the source is a constructor of \<open>request\<close>; what comes back is a \<open>response\<close>: either
  the call raised (\<open>Raised\<close>), or it returned a status code and a decoded JSON body.
  Strings are sequences of 8-bit characters, read as the code points U+0000 to U+00FF.
  JSON resources are records holding the fields the program reads; fields the program
  reads with \<^verbatim>\<open>.get\<close> and a default are stored with the default already applied.
  Where \<^verbatim>\<open>main\<close> reads an attribute unguarded (\<^verbatim>\<open>d['id']\<close>, or a string method
  on what \<^verbatim>\<open>.get\<close> returned) outside every \<^verbatim>\<open>try\<close>, the attribute is optional
  in the record and its absence is a branch of the model.
\<close>

text \<open>An exception; \<open>str_of\<close> is Python's \<^verbatim>\<open>str(e)\<close>.\<close>

datatype exn = HttpError string | TransportError string

fun str_of :: "exn \<Rightarrow> string" where
  "str_of (HttpError m) = m"
| "str_of (TransportError m) = m"

text \<open>A Google Workspace user resource, as \<^verbatim>\<open>users().get\<close> returns it.\<close>

record gws_user =
  gu_id :: string
  primaryEmail :: string
  givenName :: string
  familyName :: string
  suspended :: bool

text \<open>
  An entry of a SCIM user's \<^verbatim>\<open>groups\<close> attribute.  \<open>gr_value\<close> is \<open>None\<close> when the
  entry has no \<^verbatim>\<open>value\<close>; \<open>gr_display\<close> is \<open>None\<close> when \<^verbatim>\<open>display\<close> is there
  but is not a string (a missing one is the default, the empty string).
\<close>

record group_ref =
  gr_value :: "string option"
  gr_display :: "string option"

text \<open>A SCIM user resource of the target.\<close>

record scim_user =
  u_id :: string
  userName :: string
  active :: bool
  externalId :: "string option"
  u_givenName :: string
  u_familyName :: string
  u_groups :: "group_ref list"

text \<open>
  A JSON value read where a string is expected: a string, or a value of another type, of
  which only the truthiness matters.
\<close>

datatype jvalue = JString string | JOther bool

text \<open>
  A user as an entry of a listing of the target's users, with the attributes the program
  reads there: \<open>l_id\<close> and \<open>l_userName\<close> are \<open>None\<close> when the entry lacks them,
  \<open>l_externalId\<close> is \<open>None\<close> when \<^verbatim>\<open>.get('externalId')\<close> is \<^verbatim>\<open>None\<close>.
\<close>

record listed_user =
  l_id :: "string option"
  l_userName :: "string option"
  l_externalId :: "jvalue option"
  l_groups :: "group_ref list"

text \<open>A SCIM group resource of the target; \<open>g_members\<close> holds the members' \<^verbatim>\<open>value\<close>s.\<close>

record scim_group =
  g_id :: string
  displayName :: string
  g_members :: "string list"

text \<open>The body of a create or update of a user (\<^verbatim>\<open>update_data\<close>, \<^verbatim>\<open>user_data\<close>).\<close>

record user_payload =
  p_userName :: string
  p_givenName :: string
  p_familyName :: string
  p_active :: bool
  p_externalId :: string

datatype request =
    GwsMembersList string "string option"
  | GwsUsersGet string
  | GwsGroupsGet string
  | GwsGroupsInsert string
  | GwsMembersInsert string string
  | GwsMembersDelete string string
  | ScimGroupsFilter string
  | ScimGroupsPost string
  | ScimGroupGet string
  | ScimGroupPut string scim_group
  | ScimUsersList
  | ScimUsersFilterExternalId string
  | ScimUsersFilterUserName string
  | ScimUserGet string
  | ScimUserPut string user_payload
  | ScimUserPutResource string scim_user
  | ScimUsersPost user_payload
  | NativeUserGet string

text \<open>
  Decoded bodies.  A page of a member listing holds, for each member, its \<^verbatim>\<open>id\<close>
  (\<open>None\<close> for an entry without one) and the page token.  \<open>NoBody\<close> is a body that
  is not JSON.
\<close>

datatype body =
    Members "string option list" "string option"
  | GwsUser gws_user
  | Users "listed_user list"
  | Groups "scim_group list"
  | User scim_user
  | Group scim_group
  | Native bool
  | NoBody

datatype response = Raised exn | Reply nat body

text \<open>The calls that change a remote system: create, update, add, remove, suspend.\<close>

fun mutating :: "request \<Rightarrow> bool" where
  "mutating (GwsGroupsInsert _) = True"
| "mutating (GwsMembersInsert _ _) = True"
| "mutating (GwsMembersDelete _ _) = True"
| "mutating (ScimGroupsPost _) = True"
| "mutating (ScimGroupPut _ _) = True"
| "mutating (ScimUserPut _ _) = True"
| "mutating (ScimUserPutResource _ _) = True"
| "mutating (ScimUsersPost _) = True"
| "mutating _ = False"

section \<open>Configuration and run state\<close>

text \<open>The values imported from \<^verbatim>\<open>config\<close> that the reconciliation reads.\<close>

record config =
  GWS_GROUPS :: "string list"
  BI_GROUP_PREFIX :: string
  GWS_DOMAIN_NAME :: string
  TEST_MODE :: bool

text \<open>
  The branch a pass takes at each decision point, recorded where the source logs it, in
  test mode (\<^verbatim>\<open>Would create\<close>, \<^verbatim>\<open>Would add\<close>, ...) as in a live run: create
  or update of a target user (with the user name, and the target id for an update), a
  skipped group or member, a skipped record, an offboarded record, a record kept, and
  the membership and suspension changes decided for a target user id.
\<close>

datatype decision =
    D_Create string
  | D_Update string string
  | D_SkipGroup string
  | D_SkipMember string
  | D_SkipNonScim string
  | D_Offboard string
  | D_StillPresent string
  | D_Add string string
  | D_Remove string string
  | D_Suspend string

text \<open>
  The state a run threads through its calls: the remote world (any type \<open>'w\<close>, driven
  by a function \<open>serve\<close> that answers one request and gives the next world), the
  requests issued so far, and the decisions taken so far.
\<close>

record 'w run =
  world :: 'w
  calls :: "request list"
  decided :: "decision list"

type_synonym 'w server = "'w \<Rightarrow> request \<Rightarrow> response \<times> 'w"

definition call :: "'w server \<Rightarrow> request \<Rightarrow> 'w run \<Rightarrow> response \<times> 'w run" where
  "call serve req st =
     (case serve (world st) req of
        (r, w') \<Rightarrow> (r, st\<lparr>world := w', calls := calls st @ [req]\<rparr>))"

definition decide :: "decision \<Rightarrow> 'w run \<Rightarrow> 'w run" where
  "decide d st = st\<lparr>decided := decided st @ [d]\<rparr>"

definition start :: "'w \<Rightarrow> 'w run" where
  "start w = \<lparr>world = w, calls = [], decided = []\<rparr>"

text \<open>
  Decoding of bodies.  \<^verbatim>\<open>response.json().get('Resources', [])\<close> on a reply of the
  target: a body that is not a listing of the kind asked for does not decode, and
  \<^verbatim>\<open>response.json()\<close> raises (\<open>None\<close>).  \<^verbatim>\<open>.get('members', [])\<close> and
  \<^verbatim>\<open>.get('nextPageToken')\<close> on a result of the source's client library, and
  \<^verbatim>\<open>response.json()['id']\<close> on the reply to a create.
\<close>

fun resources_users :: "body \<Rightarrow> listed_user list option" where
  "resources_users (Users us) = Some us"
| "resources_users _ = None"

fun resources_groups :: "body \<Rightarrow> scim_group list option" where
  "resources_groups (Groups gs) = Some gs"
| "resources_groups _ = None"

fun body_members :: "body \<Rightarrow> string option list" where
  "body_members (Members ms _) = ms"
| "body_members _ = []"

fun body_next :: "body \<Rightarrow> string option" where
  "body_next (Members _ t) = t"
| "body_next _ = None"

fun body_id :: "body \<Rightarrow> string option" where
  "body_id (User u) = Some (u_id u)"
| "body_id (Group g) = Some (g_id g)"
| "body_id _ = None"

text \<open>Python truthiness of a string that may be \<^verbatim>\<open>None\<close>.\<close>

fun truthy :: "string option \<Rightarrow> bool" where
  "truthy None = False"
| "truthy (Some s) = (s \<noteq> [])"

section \<open>The source-directory client\<close>

text \<open>
  \<^verbatim>\<open>get_group_members\<close>: the \<^verbatim>\<open>while True\<close> loop follows \<^verbatim>\<open>nextPageToken\<close>
  until it is absent or empty.  It ends only if the service stops handing out tokens, so
  the loop is a partial function: \<open>None\<close> is a run that never returns.  Any exception
  leaves through the \<^verbatim>\<open>except Exception\<close> clause, which returns the empty list.
\<close>

partial_function (option) members_loop ::
  "'w server \<Rightarrow> string \<Rightarrow> string option \<Rightarrow> string option list \<Rightarrow> 'w run \<Rightarrow>
   (string option list \<times> 'w run) option"
where
  "members_loop serve group_email page_token members st =
     (case call serve (GwsMembersList group_email page_token) st of
        (Raised e, st') \<Rightarrow> Some ([], st')
      | (Reply status results, st') \<Rightarrow>
          if truthy (body_next results)
          then members_loop serve group_email (body_next results) (members @ body_members results) st'
          else Some (members @ body_members results, st'))"

declare members_loop.simps [code]

definition get_group_members ::
  "'w server \<Rightarrow> string \<Rightarrow> 'w run \<Rightarrow> (string option list \<times> 'w run) option" where
  "get_group_members serve group_email st = members_loop serve group_email None [] st"

text \<open>\<^verbatim>\<open>get_user_details\<close>: in test mode a fabricated user and no call.\<close>

definition get_user_details ::
  "config \<Rightarrow> 'w server \<Rightarrow> string \<Rightarrow> 'w run \<Rightarrow> gws_user option \<times> 'w run" where
  "get_user_details cfg serve user_id st =
     (if TEST_MODE cfg
      then (Some \<lparr>gu_id = user_id, primaryEmail = ''test_'' @ user_id @ ''@example.com'',
                   givenName = ''Test'', familyName = ''User'', suspended = False\<rparr>, st)
      else (case call serve (GwsUsersGet user_id) st of
              (Raised e, st') \<Rightarrow> (None, st')
            | (Reply status (GwsUser u), st') \<Rightarrow> (Some u, st')
            | (Reply status _, st') \<Rightarrow> (None, st')))"

text \<open>
  \<^verbatim>\<open>create_or_get_byid_enrolled_group\<close>: in test mode the address and no call;
  otherwise a lookup, and a create when the lookup raised with \<^verbatim>\<open>notFound\<close> in its
  message.
\<close>

definition enrolled_group_email :: "config \<Rightarrow> string" where
  "enrolled_group_email cfg = ''BYID_Enrolled@'' @ GWS_DOMAIN_NAME cfg"

definition create_or_get_byid_enrolled_group ::
  "config \<Rightarrow> 'w server \<Rightarrow> 'w run \<Rightarrow> string option \<times> 'w run" where
  "create_or_get_byid_enrolled_group cfg serve st =
     (let group_email = enrolled_group_email cfg in
      if TEST_MODE cfg then (Some group_email, st)
      else (case call serve (GwsGroupsGet group_email) st of
              (Reply status b, st') \<Rightarrow> (Some group_email, st')
            | (Raised e, st') \<Rightarrow>
                if sublist ''notFound'' (str_of e)
                then (case call serve (GwsGroupsInsert group_email) st' of
                        (Reply status b, st'') \<Rightarrow> (Some group_email, st'')
                      | (Raised create_error, st'') \<Rightarrow> (None, st''))
                else (None, st')))"

text \<open>
  \<^verbatim>\<open>update_byid_enrolled_group\<close>: in test mode no call; otherwise one insert or one
  delete.  Every exception is caught and logged, and nothing is returned.
\<close>

definition update_byid_enrolled_group ::
  "config \<Rightarrow> 'w server \<Rightarrow> string \<Rightarrow> string \<Rightarrow> bool \<Rightarrow> 'w run \<Rightarrow> 'w run" where
  "update_byid_enrolled_group cfg serve group_email user_email should_be_member st =
     (if TEST_MODE cfg then st
      else if should_be_member
      then snd (call serve (GwsMembersInsert group_email user_email) st)
      else snd (call serve (GwsMembersDelete group_email user_email) st))"

section \<open>The target-directory client\<close>

text \<open>
  \<^verbatim>\<open>create_bi_group\<close>: look the group up by its display name, the prefix followed by
  the source group's address; return the first hit; otherwise create it (in test mode,
  return the placeholder id).  A lookup that does not answer 200 is not decoded and falls
  through to the create as an empty lookup does; a lookup that answers 200 with a body
  that does not decode raises inside the \<^verbatim>\<open>try\<close>, and the function returns
  \<^verbatim>\<open>None\<close>.
\<close>

definition create_bi_group ::
  "config \<Rightarrow> 'w server \<Rightarrow> string \<Rightarrow> 'w run \<Rightarrow> string option \<times> 'w run" where
  "create_bi_group cfg serve group_email st =
     (case call serve (ScimGroupsFilter (BI_GROUP_PREFIX cfg @ group_email)) st of
        (Raised e, st1) \<Rightarrow> (None, st1)
      | (Reply status b, st1) \<Rightarrow>
          (case (if status = 200 then resources_groups b else Some []) of
             None \<Rightarrow> (None, st1)
           | Some groups \<Rightarrow>
               if groups \<noteq> [] then (Some (g_id (hd groups)), st1)
               else if TEST_MODE cfg then (Some ''test-group-id'', st1)
               else (case call serve (ScimGroupsPost (BI_GROUP_PREFIX cfg @ group_email)) st1 of
                       (Raised e, st2) \<Rightarrow> (None, st2)
                     | (Reply status2 b2, st2) \<Rightarrow>
                         if status2 = 201 then (body_id b2, st2) else (None, st2))))"

text \<open>
  \<^verbatim>\<open>create_or_update_bi_user\<close>: look the user up by \<open>externalId\<close>; update the first
  hit with a full replace, otherwise create.  The decision is recorded at the branch.  As
  in \<^verbatim>\<open>create_bi_group\<close>, a lookup that does not answer 200 falls through to the
  create, and one that answers 200 and does not decode, or whose first hit has no
  \<^verbatim>\<open>id\<close>, raises inside the \<^verbatim>\<open>try\<close>.
\<close>

definition update_data :: "gws_user \<Rightarrow> user_payload" where
  "update_data user_data =
     \<lparr>p_userName = primaryEmail user_data, p_givenName = givenName user_data,
      p_familyName = familyName user_data, p_active = (\<not> suspended user_data),
      p_externalId = gu_id user_data\<rparr>"

definition create_data :: "gws_user \<Rightarrow> user_payload" where
  "create_data user_data =
     \<lparr>p_userName = primaryEmail user_data, p_givenName = givenName user_data,
      p_familyName = familyName user_data, p_active = True,
      p_externalId = gu_id user_data\<rparr>"

definition create_or_update_bi_user ::
  "config \<Rightarrow> 'w server \<Rightarrow> gws_user \<Rightarrow> 'w run \<Rightarrow> string option \<times> 'w run" where
  "create_or_update_bi_user cfg serve user_data st =
     (case call serve (ScimUsersFilterExternalId (gu_id user_data)) st of
        (Raised e, st1) \<Rightarrow> (None, st1)
      | (Reply status b, st1) \<Rightarrow>
          (case (if status = 200 then resources_users b else Some []) of
             None \<Rightarrow> (None, st1)
           | Some users \<Rightarrow>
               if users \<noteq> []
               then (case l_id (hd users) of
                       None \<Rightarrow> (None, st1)
                     | Some user_id \<Rightarrow>
                         (let st2 = decide (D_Update (primaryEmail user_data) user_id) st1 in
                          if TEST_MODE cfg then (Some user_id, st2)
                          else (case call serve (ScimUserPut user_id (update_data user_data)) st2 of
                                  (Raised e, st3) \<Rightarrow> (None, st3)
                                | (Reply status2 b2, st3) \<Rightarrow>
                                    if status2 = 200 then (Some user_id, st3) else (None, st3))))
               else (let st2 = decide (D_Create (primaryEmail user_data)) st1 in
                     if TEST_MODE cfg then (Some ''test-user-id'', st2)
                     else (case call serve (ScimUsersPost (create_data user_data)) st2 of
                             (Raised e, st3) \<Rightarrow> (None, st3)
                           | (Reply status2 b2, st3) \<Rightarrow>
                               if status2 = 201 then (body_id b2, st3) else (None, st3)))))"

text \<open>
  \<^verbatim>\<open>add_user_to_group\<close>, \<^verbatim>\<open>remove_user_from_group\<close>: read the group, and write it
  back with the member list changed only when the membership has to change; the decision
  to change it is recorded at that branch.  A 200 reply
  that does not hold a group resource makes the decoding raise, which the function's
  \<^verbatim>\<open>except\<close> clause turns into \<open>False\<close>.
\<close>

definition add_user_to_group ::
  "config \<Rightarrow> 'w server \<Rightarrow> string \<Rightarrow> string \<Rightarrow> 'w run \<Rightarrow> bool \<times> 'w run" where
  "add_user_to_group cfg serve user_id group_id st =
     (case call serve (ScimGroupGet group_id) st of
        (Raised e, st1) \<Rightarrow> (False, st1)
      | (Reply status (Group group_data), st1) \<Rightarrow>
          if status \<noteq> 200 then (False, st1)
          else if user_id \<in> set (g_members group_data) then (True, st1)
          else if TEST_MODE cfg then (True, decide (D_Add user_id group_id) st1)
          else (case call serve
                       (ScimGroupPut group_id
                          (group_data\<lparr>g_members := g_members group_data @ [user_id]\<rparr>))
                       (decide (D_Add user_id group_id) st1) of
                  (Raised e, st2) \<Rightarrow> (False, st2)
                | (Reply status2 b2, st2) \<Rightarrow> (status2 = 200, st2))
      | (Reply status _, st1) \<Rightarrow> (False, st1))"

definition remove_user_from_group ::
  "config \<Rightarrow> 'w server \<Rightarrow> string \<Rightarrow> string \<Rightarrow> 'w run \<Rightarrow> bool \<times> 'w run" where
  "remove_user_from_group cfg serve user_id group_id st =
     (case call serve (ScimGroupGet group_id) st of
        (Raised e, st1) \<Rightarrow> (False, st1)
      | (Reply status (Group group_data), st1) \<Rightarrow>
          if status \<noteq> 200 then (False, st1)
          else if user_id \<notin> set (g_members group_data) then (True, st1)
          else if TEST_MODE cfg then (True, decide (D_Remove user_id group_id) st1)
          else (case call serve
                       (ScimGroupPut group_id
                          (group_data\<lparr>g_members :=
                             filter (\<lambda>m. m \<noteq> user_id) (g_members group_data)\<rparr>))
                       (decide (D_Remove user_id group_id) st1) of
                  (Raised e, st2) \<Rightarrow> (False, st2)
                | (Reply status2 b2, st2) \<Rightarrow> (status2 = 200, st2))
      | (Reply status _, st1) \<Rightarrow> (False, st1))"

text \<open>
  \<^verbatim>\<open>suspend_user\<close>: read the user; an inactive user is left alone; otherwise the
  resource is written back with \<open>active\<close> false.
\<close>

definition suspend_user ::
  "config \<Rightarrow> 'w server \<Rightarrow> string \<Rightarrow> 'w run \<Rightarrow> bool \<times> 'w run" where
  "suspend_user cfg serve user_id st =
     (case call serve (ScimUserGet user_id) st of
        (Raised e, st1) \<Rightarrow> (False, st1)
      | (Reply status (User user_data), st1) \<Rightarrow>
          if status \<noteq> 200 then (False, st1)
          else if \<not> active user_data then (True, st1)
          else if TEST_MODE cfg then (True, decide (D_Suspend user_id) st1)
          else (case call serve
                       (ScimUserPutResource user_id (user_data\<lparr>active := False\<rparr>))
                       (decide (D_Suspend user_id) st1) of
                  (Raised e, st2) \<Rightarrow> (False, st2)
                | (Reply status2 b2, st2) \<Rightarrow> (status2 = 200, st2))
      | (Reply status _, st1) \<Rightarrow> (False, st1))"

text \<open>\<^verbatim>\<open>get_bi_enrollment_status\<close>: the native API's \<^verbatim>\<open>has_active_passkey\<close>, false on
  any failure.\<close>

definition get_bi_enrollment_status :: "'w server \<Rightarrow> string \<Rightarrow> 'w run \<Rightarrow> bool \<times> 'w run" where
  "get_bi_enrollment_status serve bi_user_id st =
     (case call serve (NativeUserGet bi_user_id) st of
        (Raised e, st1) \<Rightarrow> (False, st1)
      | (Reply status (Native has_active_passkey), st1) \<Rightarrow>
          (status = 200 \<and> has_active_passkey, st1)
      | (Reply status _, st1) \<Rightarrow> (False, st1))"

text \<open>\<^verbatim>\<open>get_detailed_user_info\<close>: one lookup by user name; the rest is logging, and
  every exception is caught.\<close>

definition get_detailed_user_info :: "'w server \<Rightarrow> string \<Rightarrow> 'w run \<Rightarrow> bool \<times> 'w run" where
  "get_detailed_user_info serve user_email st =
     (case call serve (ScimUsersFilterUserName user_email) st of
        (Raised e, st1) \<Rightarrow> (False, st1)
      | (Reply status b, st1) \<Rightarrow>
          (status = 200 \<and>
           (case resources_users b of None \<Rightarrow> False | Some users \<Rightarrow> users \<noteq> []), st1))"

section \<open>The reconciliation pass\<close>

text \<open>
  The record store \<^verbatim>\<open>all_users\<close> is a Python \<^verbatim>\<open>dict\<close> from source user id to a
  tracking record.  A \<^verbatim>\<open>dict\<close> iterates in insertion order and an assignment to a key
  already present keeps its place, so the store is an association list changed with
  \<open>AList.update\<close> and \<open>AList.map_entry\<close>.  The keys \<^verbatim>\<open>bi_id\<close> and \<^verbatim>\<open>username\<close>
  may be \<^verbatim>\<open>None\<close> or missing, which is \<open>None\<close> here.
\<close>

record user_info =
  ui_groups :: "string set"
  bi_id :: "string option"
  was_in_group :: bool
  is_scim_user :: bool
  username :: "string option"

type_synonym all_users = "(string \<times> user_info) list"

text \<open>
  \<^verbatim>\<open>str.isdigit\<close>: every character is a digit and there is at least one.  Among
  the code points up to U+00FF the digits are \<^verbatim>\<open>0\<close> to \<^verbatim>\<open>9\<close> and the
  superscripts U+00B2, U+00B3 and U+00B9.
\<close>

definition isdigit :: "string \<Rightarrow> bool" where
  "isdigit s =
     (s \<noteq> [] \<and>
      list_all (\<lambda>c. c \<in> set ''0123456789'' \<or> c \<in> {CHR 0xB2, CHR 0xB3, CHR 0xB9}) s)"

definition is_scim_id :: "string \<Rightarrow> bool" where
  "is_scim_id external_id = (isdigit external_id \<and> length external_id = 21)"

text \<open>
  Seeding of the store from the target's users (the first loop of \<^verbatim>\<open>main\<close>).  The
  loop is outside every \<^verbatim>\<open>try\<close>: a truthy \<open>externalId\<close> that is not a string
  (\<^verbatim>\<open>.isdigit()\<close>), and a missing \<^verbatim>\<open>id\<close> or \<^verbatim>\<open>userName\<close> where it is read,
  raise out of \<^verbatim>\<open>main\<close>: the store returned is \<open>None\<close>.
\<close>

fun seed_users ::
  "listed_user list \<Rightarrow> all_users \<Rightarrow> 'w run \<Rightarrow> all_users option \<times> 'w run" where
  "seed_users [] all_users st = (Some all_users, st)"
| "seed_users (bi_user # bi_users) all_users st =
     (case l_externalId bi_user of
        None \<Rightarrow> seed_users bi_users all_users st
      | Some (JOther truth) \<Rightarrow>
          if truth then (None, st) else seed_users bi_users all_users st
      | Some (JString external_id) \<Rightarrow>
          if external_id = [] then seed_users bi_users all_users st
          else if is_scim_id external_id
          then (case l_id bi_user of
                  None \<Rightarrow> (None, st)
                | Some user_id \<Rightarrow>
                    (case l_userName bi_user of
                       None \<Rightarrow> (None, st)
                     | Some name \<Rightarrow>
                         seed_users bi_users
                           (AList.update external_id
                              \<lparr>ui_groups = {}, bi_id = Some user_id, was_in_group = False,
                               is_scim_user = True, username = Some name\<rparr> all_users) st))
          else (case l_userName bi_user of
                  None \<Rightarrow> (None, st)
                | Some name \<Rightarrow>
                    seed_users bi_users all_users (decide (D_SkipNonScim name) st)))"

text \<open>The body of the loop over the members of one tracked group.\<close>

definition track_member :: "string \<Rightarrow> string \<Rightarrow> all_users \<Rightarrow> all_users" where
  "track_member group_email user_id all_users =
     AList.map_entry user_id
       (\<lambda>i. i\<lparr>ui_groups := insert group_email (ui_groups i), was_in_group := True\<rparr>)
       (if map_of all_users user_id = None
        then AList.update user_id
               \<lparr>ui_groups = {}, bi_id = None, was_in_group = True,
                is_scim_user = False, username = None\<rparr> all_users
        else all_users)"

definition process_member ::
  "config \<Rightarrow> 'w server \<Rightarrow> string \<Rightarrow> string \<Rightarrow> string \<Rightarrow> string \<Rightarrow>
   all_users \<times> 'w run \<Rightarrow> all_users \<times> 'w run" where
  "process_member cfg serve byid_enrolled_group group_email bi_group_id user_id ast =
     (case ast of (all_users, st) \<Rightarrow>
      let all_users1 = track_member group_email user_id all_users in
      (case get_user_details cfg serve user_id st of
        (None, st1) \<Rightarrow> (all_users1, decide (D_SkipMember user_id) st1)
      | (Some user_data, st1) \<Rightarrow>
          (case create_or_update_bi_user cfg serve user_data st1 of
             (None, st2) \<Rightarrow> (all_users1, st2)
           | (Some bi_user_id, st2) \<Rightarrow>
               if bi_user_id = [] then (all_users1, st2)
               else (case add_user_to_group cfg serve bi_user_id bi_group_id st2 of
                       (added, st3) \<Rightarrow>
                     (case get_bi_enrollment_status serve bi_user_id st3 of
                       (is_enrolled, st4) \<Rightarrow>
                         (AList.map_entry user_id
                            (\<lambda>i. i\<lparr>bi_id := Some bi_user_id, is_scim_user := True,
                                   username := Some (primaryEmail user_data)\<rparr>) all_users1,
                          update_byid_enrolled_group cfg serve byid_enrolled_group
                            (primaryEmail user_data) is_enrolled st4))))))"

text \<open>
  The loop over the members of one tracked group.  \<^verbatim>\<open>member['id']\<close> is read
  outside every \<^verbatim>\<open>try\<close>: a member without \<^verbatim>\<open>id\<close> raises out of \<^verbatim>\<open>main\<close>,
  and the store returned is \<open>None\<close>.
\<close>

fun process_members ::
  "config \<Rightarrow> 'w server \<Rightarrow> string \<Rightarrow> string \<Rightarrow> string \<Rightarrow> string option list \<Rightarrow>
   all_users \<times> 'w run \<Rightarrow> all_users option \<times> 'w run" where
  "process_members cfg serve eg group_email bi_group_id [] ast = (Some (fst ast), snd ast)"
| "process_members cfg serve eg group_email bi_group_id (member # members) ast =
     (case member of
        None \<Rightarrow> (None, snd ast)
      | Some user_id \<Rightarrow>
          process_members cfg serve eg group_email bi_group_id members
            (process_member cfg serve eg group_email bi_group_id user_id ast))"

text \<open>
  The loop over the tracked groups; \<open>None\<close> when a member listing never returns, and
  no store when a member had no \<^verbatim>\<open>id\<close>.
\<close>

fun process_groups ::
  "config \<Rightarrow> 'w server \<Rightarrow> string \<Rightarrow> string list \<Rightarrow> all_users \<times> 'w run \<Rightarrow>
   (all_users option \<times> 'w run) option" where
  "process_groups cfg serve eg [] ast = Some (Some (fst ast), snd ast)"
| "process_groups cfg serve eg (group_email # group_emails) ast =
     (case ast of (all_users, st) \<Rightarrow>
      (case create_bi_group cfg serve group_email st of
        (bi_group_id, st1) \<Rightarrow>
          if \<not> truthy bi_group_id
          then process_groups cfg serve eg group_emails (all_users, decide (D_SkipGroup group_email) st1)
          else (case get_group_members serve group_email st1 of
                  None \<Rightarrow> None
                | Some (members, st2) \<Rightarrow>
                    (case process_members cfg serve eg group_email
                            (case bi_group_id of Some g \<Rightarrow> g | None \<Rightarrow> []) members
                            (all_users, st2) of
                       (None, st3) \<Rightarrow> Some (None, st3)
                     | (Some all_users3, st3) \<Rightarrow>
                         process_groups cfg serve eg group_emails (all_users3, st3)))))"

text \<open>
  The last loop of \<^verbatim>\<open>main\<close>, over the items of the store: a record that is not a
  SCIM user is skipped; one that was in no tracked group is offboarded (removed from the
  prefixed groups the user listing showed, suspended, removed from the enrollment group);
  any other has its enrollment re-read.  \<^verbatim>\<open>user_info['username']\<close> raises
  \<^verbatim>\<open>KeyError\<close> when the key is missing, which ends \<^verbatim>\<open>main\<close>; an id that is
  \<^verbatim>\<open>None\<close> is formatted into the URL as \<^verbatim>\<open>None\<close>.  The scan of the listed users
  for the groups to leave is outside every \<^verbatim>\<open>try\<close>: a listed user without
  \<^verbatim>\<open>id\<close>, a group entry whose \<^verbatim>\<open>display\<close> is not a string, and a prefixed
  group entry without \<^verbatim>\<open>value\<close> raise out of \<^verbatim>\<open>main\<close>; the scans return
  \<open>False\<close> then.
\<close>

datatype outcome = Completed | Aborted | Crashed

fun py_str :: "string option \<Rightarrow> string" where
  "py_str None = ''None''"
| "py_str (Some s) = s"

fun remove_listed_groups ::
  "config \<Rightarrow> 'w server \<Rightarrow> string \<Rightarrow> group_ref list \<Rightarrow> 'w run \<Rightarrow> bool \<times> 'w run" where
  "remove_listed_groups cfg serve user_id [] st = (True, st)"
| "remove_listed_groups cfg serve user_id (gref # grefs) st =
     (case gr_display gref of
        None \<Rightarrow> (False, st)
      | Some display \<Rightarrow>
          if prefix (BI_GROUP_PREFIX cfg) display
          then (case gr_value gref of
                  None \<Rightarrow> (False, st)
                | Some group_id \<Rightarrow>
                    remove_listed_groups cfg serve user_id grefs
                      (snd (remove_user_from_group cfg serve user_id group_id st)))
          else remove_listed_groups cfg serve user_id grefs st)"

fun remove_from_all_groups ::
  "config \<Rightarrow> 'w server \<Rightarrow> string option \<Rightarrow> listed_user list \<Rightarrow> 'w run \<Rightarrow> bool \<times> 'w run" where
  "remove_from_all_groups cfg serve bid [] st = (True, st)"
| "remove_from_all_groups cfg serve bid (bi_user # bi_users) st =
     (case l_id bi_user of
        None \<Rightarrow> (False, st)
      | Some user_id \<Rightarrow>
          if Some user_id = bid
          then (case remove_listed_groups cfg serve user_id (l_groups bi_user) st of
                  (False, st1) \<Rightarrow> (False, st1)
                | (True, st1) \<Rightarrow> remove_from_all_groups cfg serve bid bi_users st1)
          else remove_from_all_groups cfg serve bid bi_users st)"

definition offboard ::
  "config \<Rightarrow> 'w server \<Rightarrow> string \<Rightarrow> listed_user list \<Rightarrow> string option \<Rightarrow> string \<Rightarrow>
   'w run \<Rightarrow> bool \<times> 'w run" where
  "offboard cfg serve eg bi_users bid uname st =
     (case remove_from_all_groups cfg serve bid bi_users (decide (D_Offboard uname) st) of
        (False, st1) \<Rightarrow> (False, st1)
      | (True, st1) \<Rightarrow>
          (True, update_byid_enrolled_group cfg serve eg uname False
                   (snd (suspend_user cfg serve (py_str bid) st1))))"

definition refresh_enrollment ::
  "config \<Rightarrow> 'w server \<Rightarrow> string \<Rightarrow> string option \<Rightarrow> string \<Rightarrow> 'w run \<Rightarrow> 'w run" where
  "refresh_enrollment cfg serve eg bid uname st =
     (case get_bi_enrollment_status serve (py_str bid) (decide (D_StillPresent uname) st) of
        (is_enrolled, st1) \<Rightarrow> update_byid_enrolled_group cfg serve eg uname is_enrolled st1)"

fun sweep ::
  "config \<Rightarrow> 'w server \<Rightarrow> string \<Rightarrow> listed_user list \<Rightarrow> all_users \<Rightarrow> 'w run \<Rightarrow>
   outcome \<times> 'w run" where
  "sweep cfg serve eg bi_users [] st = (Completed, st)"
| "sweep cfg serve eg bi_users ((user_id, user_info) # items) st =
     (if \<not> is_scim_user user_info
      then sweep cfg serve eg bi_users items
             (decide (D_SkipNonScim (case username user_info of Some n \<Rightarrow> n | None \<Rightarrow> user_id)) st)
      else (case username user_info of
              None \<Rightarrow> (Crashed, st)
            | Some uname \<Rightarrow>
                if \<not> was_in_group user_info
                then (case offboard cfg serve eg bi_users (bi_id user_info) uname st of
                        (False, st1) \<Rightarrow> (Crashed, st1)
                      | (True, st1) \<Rightarrow> sweep cfg serve eg bi_users items st1)
                else sweep cfg serve eg bi_users items
                       (refresh_enrollment cfg serve eg (bi_id user_info) uname st)))"

text \<open>
  \<^verbatim>\<open>main\<close>.  The pass returns early when the enrollment group is not obtained and,
  outside test mode, when the listing of the target's users does not answer 200; that
  listing and its decoding are outside every \<^verbatim>\<open>try\<close>, so an exception there ends
  the program, as one in the three loops does.  Creating the Google service object
  (credential loading) is not part of the model.
\<close>

definition list_bi_users ::
  "config \<Rightarrow> 'w server \<Rightarrow> 'w run \<Rightarrow> (outcome + listed_user list) \<times> 'w run" where
  "list_bi_users cfg serve st =
     (if TEST_MODE cfg then (Inr [], st)
      else (case call serve ScimUsersList st of
              (Raised e, st1) \<Rightarrow> (Inl Crashed, st1)
            | (Reply status b, st1) \<Rightarrow>
                if status \<noteq> 200 then (Inl Aborted, st1)
                else (case resources_users b of
                        None \<Rightarrow> (Inl Crashed, st1)
                      | Some bi_users \<Rightarrow> (Inr bi_users, st1))))"

definition reconcile ::
  "config \<Rightarrow> 'w server \<Rightarrow> string \<Rightarrow> 'w run \<Rightarrow> (outcome \<times> 'w run) option" where
  "reconcile cfg serve eg st =
     (case list_bi_users cfg serve st of
        (Inl stop, st1) \<Rightarrow> Some (stop, st1)
      | (Inr bi_users, st1) \<Rightarrow>
          (case seed_users bi_users [] st1 of
             (None, st2) \<Rightarrow> Some (Crashed, st2)
           | (Some all_users, st2) \<Rightarrow>
               (case process_groups cfg serve eg (GWS_GROUPS cfg) (all_users, st2) of
                  None \<Rightarrow> None
                | Some (None, st3) \<Rightarrow> Some (Crashed, st3)
                | Some (Some all_users3, st3) \<Rightarrow>
                    Some (sweep cfg serve eg bi_users all_users3 st3))))"

definition main :: "config \<Rightarrow> 'w server \<Rightarrow> 'w \<Rightarrow> (outcome \<times> 'w run) option" where
  "main cfg serve w =
     (case create_or_get_byid_enrolled_group cfg serve (start w) of
        (byid_enrolled_group, st1) \<Rightarrow>
          if \<not> truthy byid_enrolled_group then Some (Aborted, st1)
          else reconcile cfg serve (py_str byid_enrolled_group)
                 (snd (get_detailed_user_info serve ''will.may@beyondidentity.dev'' st1)))"

section \<open>Reference behaviours of the remote systems\<close>

text \<open>
  What a paginated member listing yields from a page token on: \<open>Inl e\<close> when some page
  raised \<open>e\<close>, \<open>Inr ps\<close> with the pages read until a reply carried no token; together
  with the requests issued and the world reached.
\<close>

inductive pages ::
  "'w server \<Rightarrow> string \<Rightarrow> string option \<Rightarrow> 'w \<Rightarrow> exn + string option list list \<Rightarrow>
   request list \<Rightarrow> 'w \<Rightarrow> bool"
  for serve :: "'w server" and group_email :: string
where
  pages_raised:
    "serve w (GwsMembersList group_email tok) = (Raised e, w') \<Longrightarrow>
     pages serve group_email tok w (Inl e) [GwsMembersList group_email tok] w'"
| pages_last:
    "serve w (GwsMembersList group_email tok) = (Reply status b, w') \<Longrightarrow>
     \<not> truthy (body_next b) \<Longrightarrow>
     pages serve group_email tok w (Inr [body_members b]) [GwsMembersList group_email tok] w'"
| pages_more:
    "serve w (GwsMembersList group_email tok) = (Reply status b, w1) \<Longrightarrow>
     truthy (body_next b) \<Longrightarrow>
     pages serve group_email (body_next b) w1 r rs w' \<Longrightarrow>
     pages serve group_email tok w (map_sum id ((#) (body_members b)) r)
       (GwsMembersList group_email tok # rs) w'"

fun listed :: "exn + string option list list \<Rightarrow> string option list" where
  "listed (Inl e) = []"
| "listed (Inr ps) = concat ps"

text \<open>
  A reference pair of remote systems that never fails: a target holding users, groups
  and the ids with an active passkey, and a source holding the tracked groups' member
  ids, the users, and the groups edited by member address (the enrollment group).  A
  lookup filters by the attribute, a read of a missing resource answers 404 (the target)
  or raises \<^verbatim>\<open>notFound\<close> (the source), a create assigns an id longer than every id
  in use, a write replaces the resource, and a user's \<^verbatim>\<open>groups\<close> attribute is read
  off the groups' member lists.  Every entry it lists is complete.
\<close>

record fake =
  f_users :: "scim_user list"
  f_groups :: "scim_group list"
  f_passkeys :: "string list"
  s_members :: "(string \<times> string list) list"
  s_users :: "gws_user list"
  s_enrollment :: "(string \<times> string list) list"

definition fresh_id :: "string list \<Rightarrow> string" where
  "fresh_id ids = replicate (Suc (foldr (\<lambda>i n. max (length i) n) ids 0)) (CHR ''n'')"

definition groups_of :: "fake \<Rightarrow> string \<Rightarrow> group_ref list" where
  "groups_of w uid =
     map (\<lambda>g. \<lparr>gr_value = Some (g_id g), gr_display = Some (displayName g)\<rparr>)
       (filter (\<lambda>g. uid \<in> set (g_members g)) (f_groups w))"

definition shown :: "fake \<Rightarrow> scim_user \<Rightarrow> scim_user" where
  "shown w u = u\<lparr>u_groups := groups_of w (u_id u)\<rparr>"

definition entry :: "fake \<Rightarrow> scim_user \<Rightarrow> listed_user" where
  "entry w u =
     \<lparr>l_id = Some (u_id u), l_userName = Some (userName u),
      l_externalId = map_option JString (externalId u), l_groups = groups_of w (u_id u)\<rparr>"

definition put_user :: "user_payload \<Rightarrow> scim_user \<Rightarrow> scim_user" where
  "put_user p u =
     u\<lparr>userName := p_userName p, active := p_active p, externalId := Some (p_externalId p),
       u_givenName := p_givenName p, u_familyName := p_familyName p\<rparr>"

definition new_user :: "string \<Rightarrow> user_payload \<Rightarrow> scim_user" where
  "new_user i p =
     \<lparr>u_id = i, userName = p_userName p, active = p_active p,
      externalId = Some (p_externalId p), u_givenName = p_givenName p,
      u_familyName = p_familyName p, u_groups = []\<rparr>"

fun fake_serve :: "fake server" where
  "fake_serve w (GwsMembersList g t) =
     (case map_of (s_members w) g of
        None \<Rightarrow> (Raised (HttpError ''Resource Not Found: groupKey notFound''), w)
      | Some ms \<Rightarrow> (Reply 200 (Members (map Some ms) None), w))"
| "fake_serve w (GwsUsersGet k) =
     (case find (\<lambda>u. gu_id u = k) (s_users w) of
        None \<Rightarrow> (Raised (HttpError ''Resource Not Found: userKey notFound''), w)
      | Some u \<Rightarrow> (Reply 200 (GwsUser u), w))"
| "fake_serve w (GwsGroupsGet g) =
     (if map_of (s_enrollment w) g \<noteq> None \<or> map_of (s_members w) g \<noteq> None
      then (Reply 200 NoBody, w)
      else (Raised (HttpError ''Resource Not Found: groupKey notFound''), w))"
| "fake_serve w (GwsGroupsInsert g) =
     (if map_of (s_enrollment w) g \<noteq> None \<or> map_of (s_members w) g \<noteq> None
      then (Raised (HttpError ''Entity already exists.''), w)
      else (Reply 200 NoBody, w\<lparr>s_enrollment := s_enrollment w @ [(g, [])]\<rparr>))"
| "fake_serve w (GwsMembersInsert g e) =
     (case map_of (s_enrollment w) g of
        None \<Rightarrow> (Raised (HttpError ''Resource Not Found: groupKey notFound''), w)
      | Some es \<Rightarrow>
          if e \<in> set es then (Raised (HttpError ''Member already exists.''), w)
          else (Reply 200 NoBody,
                w\<lparr>s_enrollment := AList.update g (es @ [e]) (s_enrollment w)\<rparr>))"
| "fake_serve w (GwsMembersDelete g e) =
     (case map_of (s_enrollment w) g of
        None \<Rightarrow> (Raised (HttpError ''Resource Not Found: groupKey notFound''), w)
      | Some es \<Rightarrow>
          if e \<notin> set es then (Raised (HttpError ''Resource Not Found: memberKey notFound''), w)
          else (Reply 200 NoBody,
                w\<lparr>s_enrollment := AList.update g (removeAll e es) (s_enrollment w)\<rparr>))"
| "fake_serve w (ScimGroupsFilter n) =
     (Reply 200 (Groups (filter (\<lambda>g. displayName g = n) (f_groups w))), w)"
| "fake_serve w (ScimGroupsPost n) =
     (let g = \<lparr>g_id = fresh_id (map g_id (f_groups w)), displayName = n, g_members = []\<rparr>
      in (Reply 201 (Group g), w\<lparr>f_groups := f_groups w @ [g]\<rparr>))"
| "fake_serve w (ScimGroupGet i) =
     (case find (\<lambda>g. g_id g = i) (f_groups w) of
        None \<Rightarrow> (Reply 404 NoBody, w)
      | Some g \<Rightarrow> (Reply 200 (Group g), w))"
| "fake_serve w (ScimGroupPut i g') =
     (case find (\<lambda>g. g_id g = i) (f_groups w) of
        None \<Rightarrow> (Reply 404 NoBody, w)
      | Some g \<Rightarrow>
          (Reply 200 (Group (g'\<lparr>g_id := i\<rparr>)),
           w\<lparr>f_groups := map (\<lambda>g. if g_id g = i then g'\<lparr>g_id := i\<rparr> else g) (f_groups w)\<rparr>))"
| "fake_serve w ScimUsersList = (Reply 200 (Users (map (entry w) (f_users w))), w)"
| "fake_serve w (ScimUsersFilterExternalId x) =
     (Reply 200 (Users (map (entry w) (filter (\<lambda>u. externalId u = Some x) (f_users w)))), w)"
| "fake_serve w (ScimUsersFilterUserName x) =
     (Reply 200 (Users (map (entry w) (filter (\<lambda>u. userName u = x) (f_users w)))), w)"
| "fake_serve w (ScimUserGet i) =
     (case find (\<lambda>u. u_id u = i) (f_users w) of
        None \<Rightarrow> (Reply 404 NoBody, w)
      | Some u \<Rightarrow> (Reply 200 (User (shown w u)), w))"
| "fake_serve w (ScimUserPut i p) =
     (case find (\<lambda>u. u_id u = i) (f_users w) of
        None \<Rightarrow> (Reply 404 NoBody, w)
      | Some u \<Rightarrow>
          (Reply 200 (User (shown w (put_user p u))),
           w\<lparr>f_users := map (\<lambda>u. if u_id u = i then put_user p u else u) (f_users w)\<rparr>))"
| "fake_serve w (ScimUserPutResource i u') =
     (case find (\<lambda>u. u_id u = i) (f_users w) of
        None \<Rightarrow> (Reply 404 NoBody, w)
      | Some u \<Rightarrow>
          (Reply 200 (User (shown w (u'\<lparr>u_id := i\<rparr>))),
           w\<lparr>f_users := map (\<lambda>u. if u_id u = i then u'\<lparr>u_id := i\<rparr> else u) (f_users w)\<rparr>))"
| "fake_serve w (ScimUsersPost p) =
     (let u = new_user (fresh_id (map u_id (f_users w))) p
      in (Reply 201 (User u), w\<lparr>f_users := f_users w @ [u]\<rparr>))"
| "fake_serve w (NativeUserGet i) =
     (case find (\<lambda>u. u_id u = i) (f_users w) of
        None \<Rightarrow> (Reply 404 NoBody, w)
      | Some u \<Rightarrow> (Reply 200 (Native (i \<in> set (f_passkeys w))), w))"

text \<open>Two configurations that differ in the dry-run flag only.\<close>

definition live_cfg :: config where
  "live_cfg = \<lparr>GWS_GROUPS = [''eng@co''], BI_GROUP_PREFIX = ''GoogleSCIM_'',
               GWS_DOMAIN_NAME = ''co'', TEST_MODE = False\<rparr>"

definition dry_cfg :: config where
  "dry_cfg = live_cfg\<lparr>TEST_MODE := True\<rparr>"

text \<open>
  A snapshot: the tracked group \<^verbatim>\<open>eng@co\<close> has the one member Ann; the target holds
  Bob, created by an earlier pass and still a member of the prefixed group, with an
  active passkey, and the enrollment group lists him.
\<close>

definition ann :: gws_user where
  "ann = \<lparr>gu_id = ''100000000000000000001'', primaryEmail = ''ann@co'',
          givenName = ''Ann'', familyName = ''A'', suspended = False\<rparr>"

definition bob :: scim_user where
  "bob = \<lparr>u_id = ''b1'', userName = ''bob@co'', active = True,
          externalId = Some ''100000000000000000002'', u_givenName = ''Bob'',
          u_familyName = ''B'', u_groups = []\<rparr>"

definition snapshot :: fake where
  "snapshot =
     \<lparr>f_users = [bob],
      f_groups = [\<lparr>g_id = ''g1'', displayName = ''GoogleSCIM_eng@co'', g_members = [''b1'']\<rparr>],
      f_passkeys = [''b1''],
      s_members = [(''eng@co'', [''100000000000000000001''])],
      s_users = [ann],
      s_enrollment = [(''BYID_Enrolled@co'', [''bob@co''])]\<rparr>"

text \<open>A source whose listing has two pages, and one whose transport is down.\<close>

definition two_pages :: "unit server" where
  "two_pages w req =
     (case req of
        GwsMembersList g None \<Rightarrow> (Reply 200 (Members [Some ''a'', Some ''b''] (Some ''t1'')), w)
      | GwsMembersList g (Some t) \<Rightarrow> (Reply 200 (Members [Some ''c''] None), w)
      | _ \<Rightarrow> (Raised (HttpError ''notFound''), w))"

definition transport_down :: "unit server" where
  "transport_down w req = (Raised (TransportError ''connection reset''), w)"

section \<open>Which requests and decisions a pass can add\<close>

text \<open>
  The requests the reconciliation (everything in \<^verbatim>\<open>main\<close> after the lookup of the
  hardcoded user) can issue under a configuration: in test mode neither a mutating call,
  nor the listing of the target's users, nor a source user read.
\<close>

fun pass_request :: "config \<Rightarrow> request \<Rightarrow> bool" where
  "pass_request cfg (GwsMembersList g t) = True"
| "pass_request cfg (GwsUsersGet u) = (\<not> TEST_MODE cfg)"
| "pass_request cfg (GwsGroupsGet g) = False"
| "pass_request cfg (GwsGroupsInsert g) = False"
| "pass_request cfg (GwsMembersInsert g e) = (\<not> TEST_MODE cfg)"
| "pass_request cfg (GwsMembersDelete g e) = (\<not> TEST_MODE cfg)"
| "pass_request cfg (ScimGroupsFilter n) = True"
| "pass_request cfg (ScimGroupsPost n) = (\<not> TEST_MODE cfg)"
| "pass_request cfg (ScimGroupGet g) = True"
| "pass_request cfg (ScimGroupPut g b) = (\<not> TEST_MODE cfg)"
| "pass_request cfg ScimUsersList = (\<not> TEST_MODE cfg)"
| "pass_request cfg (ScimUsersFilterExternalId x) = True"
| "pass_request cfg (ScimUsersFilterUserName x) = False"
| "pass_request cfg (ScimUserGet u) = True"
| "pass_request cfg (ScimUserPut u p) = (\<not> TEST_MODE cfg)"
| "pass_request cfg (ScimUserPutResource u r) = (\<not> TEST_MODE cfg)"
| "pass_request cfg (ScimUsersPost p) = (\<not> TEST_MODE cfg)"
| "pass_request cfg (NativeUserGet u) = True"

text \<open>
  \<open>extends P Q st st'\<close>: the run state \<open>st'\<close> continues \<open>st\<close> with requests that all
  satisfy \<open>P\<close> and decisions that all satisfy \<open>Q\<close>.
\<close>

definition extends ::
  "(request \<Rightarrow> bool) \<Rightarrow> (decision \<Rightarrow> bool) \<Rightarrow> 'w run \<Rightarrow> 'w run \<Rightarrow> bool" where
  "extends P Q st st' =
     ((\<exists>rs. calls st' = calls st @ rs \<and> list_all P rs) \<and>
      (\<exists>ds. decided st' = decided st @ ds \<and> list_all Q ds))"

text \<open>A property of every record of the store.\<close>

definition store_all :: "(user_info \<Rightarrow> bool) \<Rightarrow> all_users \<Rightarrow> bool" where
  "store_all P all_users = list_all (\<lambda>item. P (snd item)) all_users"

text \<open>A record that is marked as a SCIM user carries a user name.\<close>

definition named :: "user_info \<Rightarrow> bool" where
  "named i = (is_scim_user i \<longrightarrow> username i \<noteq> None)"

text \<open>The reads a dry run leaves out.\<close>

fun skipped_read :: "request \<Rightarrow> bool" where
  "skipped_read ScimUsersList = True"
| "skipped_read (GwsUsersGet u) = True"
| "skipped_read (GwsGroupsGet g) = True"
| "skipped_read _ = False"

text \<open>
  Two servers answer alike but for the reply to one request \<open>q\<close>, which may differ
  while leaving the same world behind.
\<close>

definition same_but :: "request \<Rightarrow> 'w server \<Rightarrow> 'w server \<Rightarrow> bool" where
  "same_but q serve serve' =
     (\<forall>w. (\<forall>r. r \<noteq> q \<longrightarrow> serve' w r = serve w r) \<and> snd (serve' w q) = snd (serve w q))"



definition not_found :: "unit server" where
  "not_found w r = (Reply 404 NoBody, w)"

definition will_found :: "fake server" where
  "will_found w r =
     (if r = ScimUsersFilterUserName ''will.may@beyondidentity.dev''
      then (Reply 200 (Users [entry w bob]), w) else fake_serve w r)"

text \<open>The decisions, and the mutating calls, of a pass that returned.\<close>

definition decisions_of :: "(outcome \<times> 'w run) option \<Rightarrow> decision list option" where
  "decisions_of r = map_option (\<lambda>x. decided (snd x)) r"

definition mutations_of :: "(outcome \<times> 'w run) option \<Rightarrow> request list option" where
  "mutations_of r = map_option (\<lambda>x. filter mutating (calls (snd x))) r"

text \<open>A second live pass, run on the world the first one left.\<close>

definition second_pass :: "(outcome \<times> fake run) option" where
  "second_pass =
     (case main live_cfg fake_serve snapshot of
        None \<Rightarrow> None
      | Some r \<Rightarrow> main live_cfg fake_serve (world (snd r)))"

text \<open>A target in which one user is inactive, one group is empty, and nothing else exists.\<close>

definition half_gone :: "unit server" where
  "half_gone w r =
     (if r = ScimUserGet ''b1'' then (Reply 200 (User (bob\<lparr>active := False\<rparr>)), w)
      else if r = ScimGroupGet ''g1''
      then (Reply 200 (Group \<lparr>g_id = ''g1'', displayName = ''GoogleSCIM_eng@co'',
                               g_members = []\<rparr>), w)
      else (Reply 404 NoBody, w))"

section \<open>Conditions on the replies\<close>

text \<open>
  Every member listing ends: from any world and page token on, the service gets to a
  page without token, or raises.
\<close>

definition listings_end :: "'w server \<Rightarrow> bool" where
  "listings_end serve = (\<forall>g tok w. \<exists>r rs w'. pages serve g tok w r rs w')"

text \<open>Every member a listing holds has an \<^verbatim>\<open>id\<close>.\<close>

definition member_ids :: "'w server \<Rightarrow> bool" where
  "member_ids serve =
     (\<forall>w g tok status b w'.
        serve w (GwsMembersList g tok) = (Reply status b, w') \<longrightarrow> None \<notin> set (body_members b))"

text \<open>
  An entry of the listing of the target's users at which the seeding raises: its
  \<open>externalId\<close> is truthy and not a string, or it is a non-empty string and the entry
  has no \<open>userName\<close>, or it has the format of a source id and the entry has no \<open>id\<close>.
\<close>

definition seed_stop :: "listed_user \<Rightarrow> bool" where
  "seed_stop u =
     (case l_externalId u of
        None \<Rightarrow> False
      | Some (JOther truth) \<Rightarrow> truth
      | Some (JString x) \<Rightarrow> x \<noteq> [] \<and> (l_userName u = None \<or> is_scim_id x \<and> l_id u = None))"

text \<open>
  An entry the scan for the groups to leave reads without raising: it has an \<open>id\<close>, the
  \<open>display\<close> of each of its groups is a string, and its prefixed groups have a \<open>value\<close>.
\<close>

definition scannable :: "config \<Rightarrow> listed_user \<Rightarrow> bool" where
  "scannable cfg u =
     (l_id u \<noteq> None \<and>
      list_all (\<lambda>g. case gr_display g of
                      None \<Rightarrow> False
                    | Some d \<Rightarrow> prefix (BI_GROUP_PREFIX cfg) d \<longrightarrow> gr_value g \<noteq> None)
        (l_groups u))"





section \<open>Decisions of a dry run\<close>

text \<open>The address of a user fabricated in test mode: \<^verbatim>\<open>test_<id>@example.com\<close>.\<close>

definition fabricated :: "string \<Rightarrow> bool" where
  "fabricated e = (prefix ''test_'' e \<and> suffix ''@example.com'' (drop 5 e))"

text \<open>
  The decisions the loop over the tracked groups can take under a configuration: in test
  mode no member is skipped for want of details, and users are created and updated under
  fabricated addresses.
\<close>

fun member_decision :: "config \<Rightarrow> decision \<Rightarrow> bool" where
  "member_decision cfg (D_SkipMember u) = (\<not> TEST_MODE cfg)"
| "member_decision cfg (D_Create e) = (TEST_MODE cfg \<longrightarrow> fabricated e)"
| "member_decision cfg (D_Update e i) = (TEST_MODE cfg \<longrightarrow> fabricated e)"
| "member_decision cfg (D_Add i g) = True"
| "member_decision cfg (D_SkipGroup g) = True"
| "member_decision cfg _ = False"

text \<open>The decisions of a dry run.\<close>

fun dry_decision :: "decision \<Rightarrow> bool" where
  "dry_decision (D_Create e) = fabricated e"
| "dry_decision (D_Update e i) = fabricated e"
| "dry_decision (D_StillPresent e) = fabricated e"
| "dry_decision (D_Add i g) = True"
| "dry_decision (D_SkipGroup g) = True"
| "dry_decision (D_SkipNonScim n) = True"
| "dry_decision _ = False"

text \<open>A record of the store of a dry run: seen in a tracked group and, when marked as a
  SCIM user, under a fabricated address.\<close>

definition dry_record :: "user_info \<Rightarrow> bool" where
  "dry_record i =
     (was_in_group i \<and>
      (is_scim_user i \<longrightarrow> (case username i of None \<Rightarrow> False | Some n \<Rightarrow> fabricated n)))"

text \<open>The reference systems with a lookup of groups that answers 500.\<close>

definition lookup_fails :: "fake server" where
  "lookup_fails w r =
     (case r of ScimGroupsFilter n \<Rightarrow> (Reply 500 NoBody, w) | _ \<Rightarrow> fake_serve w r)"


definition no_id_member :: "fake server" where
  "no_id_member w r =
     (case r of
        GwsMembersList g t \<Rightarrow> (Reply 200 (Members [None] None), w)
      | _ \<Rightarrow> fake_serve w r)"

section \<open>Properties of the source-directory client\<close>

lemma members_loop_pages:
  "pages serve g tok w r rs w' \<Longrightarrow> world st = w \<Longrightarrow>
   members_loop serve g tok acc st =
     Some (case r of Inl e \<Rightarrow> [] | Inr ps \<Rightarrow> acc @ concat ps,
           st\<lparr>world := w', calls := calls st @ rs\<rparr>)"
proof (induction arbitrary: acc st rule: pages.induct)
  case (pages_raised w tok e w')
  then show ?case by (subst members_loop.simps) (simp add: call_def)
next
  case (pages_last w tok status b w')
  then show ?case by (subst members_loop.simps) (simp add: call_def)
next
  case (pages_more w tok status b w1 r rs w')
  let ?st1 = "st\<lparr>world := w1, calls := calls st @ [GwsMembersList g tok]\<rparr>"
  have step: "call serve (GwsMembersList g tok) st = (Reply status b, ?st1)"
    using pages_more.hyps(1) pages_more.prems by (simp add: call_def)
  have "members_loop serve g tok acc st =
          members_loop serve g (body_next b) (acc @ body_members b) ?st1"
    using pages_more.hyps(2) by (subst members_loop.simps) (simp add: step)
  also have "\<dots> = Some (case r of Inl e \<Rightarrow> [] | Inr ps \<Rightarrow> (acc @ body_members b) @ concat ps,
                        ?st1\<lparr>world := w', calls := calls ?st1 @ rs\<rparr>)"
    by (rule pages_more.IH) simp
  finally show ?case by (cases r) simp_all
qed

text \<open>
  C7, as the code has it.  \<^verbatim>\<open>get_group_members\<close> returns the concatenation of the
  pages it reads, following the page token until a reply carries none; when any page
  raises, whatever the exception (transport error or API error), it returns the empty
  list, the pages read before included, and it never fails.
\<close>

theorem get_group_members_pages:
  "pages serve group_email None w r rs w' \<Longrightarrow>
   get_group_members serve group_email (start w) =
     Some (listed r, \<lparr>world = w', calls = rs, decided = []\<rparr>)"
  using members_loop_pages [of serve group_email None w r rs w' "start w" "[]"]
  by (cases r) (simp_all add: get_group_members_def start_def)

theorem get_group_members_pages_witness:
  "pages two_pages ''eng@co'' None () (Inr [[Some ''a'', Some ''b''], [Some ''c'']])
     [GwsMembersList ''eng@co'' None, GwsMembersList ''eng@co'' (Some ''t1'')] () \<and>
   get_group_members two_pages ''eng@co'' (start ()) =
     Some ([Some ''a'', Some ''b'', Some ''c''],
           \<lparr>world = (),
            calls = [GwsMembersList ''eng@co'' None, GwsMembersList ''eng@co'' (Some ''t1'')],
            decided = []\<rparr>)"
proof -
  have p: "pages two_pages ''eng@co'' None () (Inr [[Some ''a'', Some ''b''], [Some ''c'']])
     [GwsMembersList ''eng@co'' None, GwsMembersList ''eng@co'' (Some ''t1'')] ()"
    using pages_more [of two_pages "()" "''eng@co''" None 200
        "Members [Some ''a'', Some ''b''] (Some ''t1'')" "()" "Inr [[Some ''c'']]"
        "[GwsMembersList ''eng@co'' (Some ''t1'')]" "()"]
      pages_last [of two_pages "()" "''eng@co''" "Some ''t1''" 200 "Members [Some ''c''] None" "()"]
    by (simp add: two_pages_def)
  show ?thesis using p get_group_members_pages [OF p] by simp
qed

text \<open>
  C7 as stated fails: on a transport error the listing does not fail, it returns the
  empty list like on any other exception.
\<close>

theorem get_group_members_transport_counterexample:
  "get_group_members transport_down ''eng@co'' (start ()) =
     Some ([], \<lparr>world = (), calls = [GwsMembersList ''eng@co'' None], decided = []\<rparr>)"
  by (simp add: get_group_members_def members_loop.simps call_def transport_down_def start_def)

section \<open>What a pass adds to a run\<close>

lemma extends_refl [simp]: "extends P Q st st"
  by (simp add: extends_def)

lemma extends_trans: "extends P Q st st1 \<Longrightarrow> extends P Q st1 st2 \<Longrightarrow> extends P Q st st2"
  by (auto simp: extends_def)

lemma extends_mono:
  "extends P Q st st' \<Longrightarrow> (\<And>r. P r \<Longrightarrow> P' r) \<Longrightarrow> (\<And>d. Q d \<Longrightarrow> Q' d) \<Longrightarrow>
   extends P' Q' st st'"
  unfolding extends_def list_all_iff by blast

lemma extends_decide: "Q d \<Longrightarrow> extends P Q st0 st \<Longrightarrow> extends P Q st0 (decide d st)"
  by (auto simp: extends_def decide_def)

lemma extends_call: "P r \<Longrightarrow> extends P Q st0 st \<Longrightarrow> extends P Q st0 (snd (call serve r st))"
  by (auto simp: extends_def call_def split_beta)

lemma get_user_details_extends:
  "extends (pass_request cfg) Q st0 st \<Longrightarrow>
   extends (pass_request cfg) Q st0 (snd (get_user_details cfg serve u st))"
  by (simp add: get_user_details_def split_beta extends_call split: response.split body.split)

lemma create_bi_group_extends:
  "extends (pass_request cfg) Q st0 st \<Longrightarrow>
   extends (pass_request cfg) Q st0 (snd (create_bi_group cfg serve g st))"
  by (simp add: create_bi_group_def split_beta extends_call
      split: response.split body.split option.split)

lemma create_or_update_bi_user_extends:
  assumes "extends (pass_request cfg) Q st0 st"
    and "\<And>i. Q (D_Update (primaryEmail u) i)" and "Q (D_Create (primaryEmail u))"
  shows "extends (pass_request cfg) Q st0 (snd (create_or_update_bi_user cfg serve u st))"
  using assms
  by (simp add: create_or_update_bi_user_def split_beta Let_def extends_call extends_decide
      split: response.split body.split option.split)

lemma add_user_to_group_extends:
  assumes "extends (pass_request cfg) Q st0 st" and "Q (D_Add u g)"
  shows "extends (pass_request cfg) Q st0 (snd (add_user_to_group cfg serve u g st))"
  using assms
  by (simp add: add_user_to_group_def split_beta extends_call extends_decide
      split: response.split body.split)

lemma remove_user_from_group_extends:
  assumes "extends (pass_request cfg) Q st0 st" and "Q (D_Remove u g)"
  shows "extends (pass_request cfg) Q st0 (snd (remove_user_from_group cfg serve u g st))"
  using assms
  by (simp add: remove_user_from_group_def split_beta extends_call extends_decide
      split: response.split body.split)

lemma suspend_user_extends:
  assumes "extends (pass_request cfg) Q st0 st" and "Q (D_Suspend u)"
  shows "extends (pass_request cfg) Q st0 (snd (suspend_user cfg serve u st))"
  using assms
  by (simp add: suspend_user_def split_beta extends_call extends_decide
      split: response.split body.split)

lemma get_bi_enrollment_status_extends:
  "extends (pass_request cfg) Q st0 st \<Longrightarrow>
   extends (pass_request cfg) Q st0 (snd (get_bi_enrollment_status serve u st))"
  by (simp add: get_bi_enrollment_status_def split_beta extends_call
      split: response.split body.split)

lemma update_byid_enrolled_group_extends:
  "extends (pass_request cfg) Q st0 st \<Longrightarrow>
   extends (pass_request cfg) Q st0 (update_byid_enrolled_group cfg serve eg e b st)"
  by (simp add: update_byid_enrolled_group_def extends_call)

lemma list_bi_users_extends:
  "extends (pass_request cfg) Q st0 st \<Longrightarrow>
   extends (pass_request cfg) Q st0 (snd (list_bi_users cfg serve st))"
  by (simp add: list_bi_users_def split_beta extends_call
      split: response.split option.split)

lemma members_loop_extends:
  assumes "members_loop serve g t acc st = Some y"
  shows "extends (pass_request cfg) Q st (snd y)"
proof (rule members_loop.raw_induct
    [where P = "\<lambda>serve g t acc st y. extends (pass_request cfg) Q st (snd y)", OF _ assms])
  fix loop :: "'a server \<Rightarrow> string \<Rightarrow> string option \<Rightarrow> string option list \<Rightarrow> 'a run \<Rightarrow>
      (string option list \<times> 'a run) option"
    and serve g t acc st y
  assume IH: "\<And>serve g t acc st y. loop serve g t acc st = Some y \<Longrightarrow>
      extends (pass_request cfg) Q st (snd y)"
  assume body: "(case call serve (GwsMembersList g t) st of
        (Raised e, st') \<Rightarrow> Some ([], st')
      | (Reply status results, st') \<Rightarrow>
          if truthy (body_next results)
          then loop serve g (body_next results) (acc @ body_members results) st'
          else Some (acc @ body_members results, st')) = Some y"
  obtain r st1 where c: "call serve (GwsMembersList g t) st = (r, st1)"
    by (cases "call serve (GwsMembersList g t) st")
  then have e: "extends (pass_request cfg) Q st st1"
    by (auto simp: extends_def call_def split: prod.splits)
  show "extends (pass_request cfg) Q st (snd y)"
  proof (cases r)
    case (Raised x)
    with body c e show ?thesis by auto
  next
    case (Reply status b)
    show ?thesis
    proof (cases "truthy (body_next b)")
      case True
      with body c Reply have "loop serve g (body_next b) (acc @ body_members b) st1 = Some y"
        by simp
      from e IH [OF this] show ?thesis by (rule extends_trans)
    next
      case False
      with body c Reply e show ?thesis by auto
    qed
  qed
qed

lemma get_group_members_extends:
  "get_group_members serve g st = Some (ms, st') \<Longrightarrow> extends (pass_request cfg) Q st st'"
  using members_loop_extends [of serve g None "[]" st "(ms, st')" cfg Q]
  by (simp add: get_group_members_def)

lemma seed_users_extends:
  "extends P (\<lambda>d. True) st0 st \<Longrightarrow> extends P (\<lambda>d. True) st0 (snd (seed_users us a st))"
  by (induction us a st rule: seed_users.induct)
     (simp_all add: extends_decide split: option.split jvalue.split)

lemma fabricated_test: "fabricated (''test_'' @ u @ ''@example.com'')"
  unfolding fabricated_def by (auto intro: suffixI)

lemma process_member_extends:
  assumes e: "extends (pass_request cfg) (member_decision cfg) st0 st"
  shows "extends (pass_request cfg) (member_decision cfg) st0
           (snd (process_member cfg serve eg ge gid u (a, st)))"
proof -
  let ?Q = "member_decision cfg"
  note e1 = get_user_details_extends [OF e, of serve u]
  have f: "TEST_MODE cfg \<longrightarrow> fabricated (primaryEmail d)"
    if "fst (get_user_details cfg serve u st) = Some d" for d
    using that fabricated_test [of u]
    by (auto simp: get_user_details_def split: if_splits)
  have e2: "extends (pass_request cfg) ?Q st0
      (snd (create_or_update_bi_user cfg serve d (snd (get_user_details cfg serve u st))))"
    if "fst (get_user_details cfg serve u st) = Some d" for d
    using f [OF that] by (intro create_or_update_bi_user_extends e1) simp_all
  have skip: "extends (pass_request cfg) ?Q st0
      (decide (D_SkipMember u) (snd (get_user_details cfg serve u st)))"
    if "fst (get_user_details cfg serve u st) = None"
    using that e1
    by (intro extends_decide) (auto simp: get_user_details_def split: if_splits)
  show ?thesis
    unfolding process_member_def
    by (simp add: split_beta Let_def skip e2 update_byid_enrolled_group_extends
          get_bi_enrollment_status_extends add_user_to_group_extends
        split: option.split)
qed

lemma process_members_extends:
  "extends (pass_request cfg) (member_decision cfg) st0 (snd ast) \<Longrightarrow>
   extends (pass_request cfg) (member_decision cfg) st0
     (snd (process_members cfg serve eg ge gid ms ast))"
proof (induction ms arbitrary: ast)
  case Nil
  then show ?case by simp
next
  case (Cons m ms)
  show ?case
  proof (cases m)
    case None
    with Cons.prems show ?thesis by simp
  next
    case (Some u)
    from process_member_extends [of cfg st0 "snd ast" serve eg ge gid u "fst ast"] Cons.prems
    have "extends (pass_request cfg) (member_decision cfg) st0
            (snd (process_member cfg serve eg ge gid u ast))" by simp
    from Cons.IH [OF this] Some show ?thesis by simp
  qed
qed

lemma process_groups_extends:
  "process_groups cfg serve eg gs ast = Some r \<Longrightarrow>
   extends (pass_request cfg) (member_decision cfg) st0 (snd ast) \<Longrightarrow>
   extends (pass_request cfg) (member_decision cfg) st0 (snd r)"
proof (induction gs arbitrary: ast)
  case Nil
  then show ?case by auto
next
  case (Cons g gs)
  obtain a st where ast: "ast = (a, st)" by (cases ast)
  let ?c = "create_bi_group cfg serve g st"
  from Cons.prems(2) have e1: "extends (pass_request cfg) (member_decision cfg) st0 (snd ?c)"
    by (simp add: ast create_bi_group_extends)
  show ?case
  proof (cases "truthy (fst ?c)")
    case False
    with Cons.prems(1)
    have "process_groups cfg serve eg gs (a, decide (D_SkipGroup g) (snd ?c)) = Some r"
      by (simp add: ast split_beta)
    from Cons.IH [OF this] e1 show ?thesis by (simp add: extends_decide)
  next
    case True
    with Cons.prems(1) obtain ms st2 where
      m: "get_group_members serve g (snd ?c) = Some (ms, st2)"
      by (cases "get_group_members serve g (snd ?c)") (auto simp: ast split_beta)
    let ?p = "process_members cfg serve eg g (case fst ?c of Some g \<Rightarrow> g | None \<Rightarrow> []) ms (a, st2)"
    from get_group_members_extends [OF m, of cfg "member_decision cfg"] e1
    have "extends (pass_request cfg) (member_decision cfg) st0 st2"
      by (rule extends_trans [rotated])
    then have e3: "extends (pass_request cfg) (member_decision cfg) st0 (snd ?p)"
      using process_members_extends [of cfg st0 "(a, st2)"] by simp
    show ?thesis
    proof (cases "fst ?p")
      case None
      with Cons.prems(1) True m have "r = (None, snd ?p)"
        by (simp add: ast split_beta split: option.splits)
      with e3 show ?thesis by simp
    next
      case (Some a3)
      with Cons.prems(1) True m
      have "process_groups cfg serve eg gs (a3, snd ?p) = Some r"
        by (simp add: ast split_beta split: option.splits)
      from Cons.IH [OF this] e3 show ?thesis by simp
    qed
  qed
qed

lemma remove_listed_groups_extends:
  "extends (pass_request cfg) (\<lambda>d. True) st0 st \<Longrightarrow>
   extends (pass_request cfg) (\<lambda>d. True) st0 (snd (remove_listed_groups cfg serve u grefs st))"
  by (induction grefs arbitrary: st)
     (simp_all add: remove_user_from_group_extends split: option.split)

lemma remove_from_all_groups_extends:
  "extends (pass_request cfg) (\<lambda>d. True) st0 st \<Longrightarrow>
   extends (pass_request cfg) (\<lambda>d. True) st0 (snd (remove_from_all_groups cfg serve bid us st))"
  by (induction us arbitrary: st)
     (simp_all add: remove_listed_groups_extends split_beta split: option.split bool.split)

lemma offboard_extends:
  "extends (pass_request cfg) (\<lambda>d. True) st0 st \<Longrightarrow>
   extends (pass_request cfg) (\<lambda>d. True) st0 (snd (offboard cfg serve eg us bid uname st))"
  by (simp add: offboard_def split_beta remove_from_all_groups_extends extends_decide
        suspend_user_extends update_byid_enrolled_group_extends split: bool.split)

lemma refresh_enrollment_extends:
  "extends (pass_request cfg) Q st0 st \<Longrightarrow> Q (D_StillPresent uname) \<Longrightarrow>
   extends (pass_request cfg) Q st0 (refresh_enrollment cfg serve eg bid uname st)"
  by (simp add: refresh_enrollment_def split_beta extends_decide
        get_bi_enrollment_status_extends update_byid_enrolled_group_extends)

lemma sweep_extends:
  "extends (pass_request cfg) (\<lambda>d. True) st0 st \<Longrightarrow>
   extends (pass_request cfg) (\<lambda>d. True) st0 (snd (sweep cfg serve eg us items st))"
proof (induction items arbitrary: st)
  case Nil
  then show ?case by simp
next
  case (Cons item items)
  obtain k i where item: "item = (k, i)" by (cases item)
  from Cons.prems show ?case
    by (simp add: item split_beta Cons.IH extends_decide offboard_extends
          refresh_enrollment_extends split: option.split bool.split)
qed

lemma member_decision_any:
  "extends P (member_decision cfg) st0 st \<Longrightarrow> extends P (\<lambda>d. True) st0 st"
  by (erule extends_mono) simp_all

section \<open>Invariants of the record store\<close>

lemma store_all_update:
  "store_all P a \<Longrightarrow> P v \<Longrightarrow> store_all P (AList.update k v a)"
  by (induction a) (auto simp: store_all_def)

lemma store_all_map_entry:
  "store_all P a \<Longrightarrow> (\<And>i. P i \<Longrightarrow> P (f i)) \<Longrightarrow> store_all P (AList.map_entry k f a)"
  by (induction a) (auto simp: store_all_def)

lemma seed_users_named:
  "store_all named a \<Longrightarrow> fst (seed_users us a st) = Some a' \<Longrightarrow> store_all named a'"
proof (induction us a st rule: seed_users.induct)
  case (1 all_users st)
  then show ?case by simp
next
  case (2 bi_user bi_users all_users st)
  have n: "store_all named (AList.update k
      \<lparr>ui_groups = {}, bi_id = Some b, was_in_group = False, is_scim_user = True,
       username = Some x\<rparr> all_users)" for k b x
    by (rule store_all_update [OF "2.prems"(1)]) (simp add: named_def)
  from "2.prems" "2.IH" n show ?case
    by (auto split: option.splits jvalue.splits if_splits)
qed

lemma track_member_named: "store_all named a \<Longrightarrow> store_all named (track_member g u a)"
  unfolding track_member_def
  by (auto intro!: store_all_map_entry store_all_update simp: named_def)

lemma track_member_dry: "store_all dry_record a \<Longrightarrow> store_all dry_record (track_member g u a)"
  unfolding track_member_def
  by (auto intro!: store_all_map_entry store_all_update simp: dry_record_def)

lemma process_member_fst:
  "fst (process_member cfg serve eg ge gid u (a, st)) = track_member ge u a \<or>
   (\<exists>b d. fst (get_user_details cfg serve u st) = Some d \<and>
      fst (process_member cfg serve eg ge gid u (a, st)) =
        AList.map_entry u
          (\<lambda>i. i\<lparr>bi_id := Some b, is_scim_user := True, username := Some (primaryEmail d)\<rparr>)
          (track_member ge u a))"
  unfolding process_member_def
  by (auto simp: split_beta Let_def split: option.split)

lemma process_member_named:
  "store_all named a \<Longrightarrow> store_all named (fst (process_member cfg serve eg ge gid u (a, st)))"
  using process_member_fst [of cfg serve eg ge gid u a st]
  by (auto intro!: store_all_map_entry track_member_named simp: named_def)

lemma process_member_dry:
  assumes t: "TEST_MODE cfg" and s: "store_all dry_record a"
  shows "store_all dry_record (fst (process_member cfg serve eg ge gid u (a, st)))"
proof -
  have "fabricated (primaryEmail d)" if "fst (get_user_details cfg serve u st) = Some d" for d
    using that t fabricated_test [of u] by (auto simp: get_user_details_def)
  with process_member_fst [of cfg serve eg ge gid u a st] s show ?thesis
    by (auto intro!: store_all_map_entry track_member_dry simp: dry_record_def)
qed

lemma process_members_store:
  assumes step: "\<And>u a st. store_all P a \<Longrightarrow>
      store_all P (fst (process_member cfg serve eg ge gid u (a, st)))"
  shows "store_all P (fst ast) \<Longrightarrow> fst (process_members cfg serve eg ge gid ms ast) = Some a' \<Longrightarrow>
         store_all P a'"
proof (induction ms arbitrary: ast)
  case Nil
  then show ?case by simp
next
  case (Cons m ms)
  show ?case
  proof (cases m)
    case None
    with Cons.prems show ?thesis by simp
  next
    case (Some u)
    from step [OF Cons.prems(1), of u "snd ast"]
    have "store_all P (fst (process_member cfg serve eg ge gid u ast))" by simp
    from Cons.IH [OF this] Cons.prems(2) Some show ?thesis by simp
  qed
qed

lemma process_groups_store:
  assumes step: "\<And>ge gid u a st. store_all P a \<Longrightarrow>
      store_all P (fst (process_member cfg serve eg ge gid u (a, st)))"
  shows "store_all P (fst ast) \<Longrightarrow> process_groups cfg serve eg gs ast = Some (Some a', st') \<Longrightarrow>
         store_all P a'"
proof (induction gs arbitrary: ast)
  case Nil
  then show ?case by auto
next
  case (Cons g gs)
  obtain a st where ast: "ast = (a, st)" by (cases ast)
  let ?c = "create_bi_group cfg serve g st"
  show ?case
  proof (cases "truthy (fst ?c)")
    case False
    with Cons.prems(2)
    have "process_groups cfg serve eg gs (a, decide (D_SkipGroup g) (snd ?c)) = Some (Some a', st')"
      by (simp add: ast split_beta)
    from Cons.IH [OF _ this] Cons.prems(1) show ?thesis by (simp add: ast)
  next
    case True
    with Cons.prems(2) obtain ms st2 where
      m: "get_group_members serve g (snd ?c) = Some (ms, st2)"
      by (cases "get_group_members serve g (snd ?c)") (auto simp: ast split_beta)
    let ?p = "process_members cfg serve eg g (case fst ?c of Some g \<Rightarrow> g | None \<Rightarrow> []) ms (a, st2)"
    from Cons.prems(2) True m obtain a3 where
      p: "fst ?p = Some a3" and r: "process_groups cfg serve eg gs (a3, snd ?p) = Some (Some a', st')"
      by (cases "fst ?p") (auto simp: ast split_beta split: option.splits)
    from process_members_store [of P cfg serve eg, OF step _ p] Cons.prems(1)
    have "store_all P a3" by (simp add: ast)
    from Cons.IH [OF _ r] this show ?thesis by simp
  qed
qed

section \<open>How a pass ends\<close>

lemma seed_users_stop: "(fst (seed_users us a st) = None) = list_ex seed_stop us"
  by (induction us a st rule: seed_users.induct)
     (auto simp: seed_stop_def split: option.splits jvalue.splits)

lemma process_members_ids:
  "None \<notin> set ms \<Longrightarrow> fst (process_members cfg serve eg ge gid ms ast) \<noteq> None"
proof (induction ms arbitrary: ast)
  case Nil
  show ?case by simp
next
  case (Cons m ms)
  from Cons.prems obtain u where "m = Some u" by (cases m) auto
  with Cons show ?case by simp
qed

lemma remove_listed_groups_scans:
  "list_all (\<lambda>g. case gr_display g of
                   None \<Rightarrow> False
                 | Some d \<Rightarrow> prefix (BI_GROUP_PREFIX cfg) d \<longrightarrow> gr_value g \<noteq> None) grefs \<Longrightarrow>
   fst (remove_listed_groups cfg serve u grefs st)"
  by (induction grefs arbitrary: st) (auto split: option.splits)

lemma remove_from_all_groups_scans:
  "list_all (scannable cfg) us \<Longrightarrow> fst (remove_from_all_groups cfg serve bid us st)"
proof (induction us arbitrary: st)
  case Nil
  then show ?case by simp
next
  case (Cons u us)
  from Cons.prems obtain i where i: "l_id u = Some i" by (auto simp: scannable_def)
  from Cons.prems have "fst (remove_listed_groups cfg serve i (l_groups u) st)"
    by (intro remove_listed_groups_scans) (simp add: scannable_def)
  with Cons i show ?case
    by (cases "remove_listed_groups cfg serve i (l_groups u) st") auto
qed

lemma sweep_not_aborted: "fst (sweep cfg serve eg us items st) \<noteq> Aborted"
proof (induction items arbitrary: st)
  case Nil
  show ?case by simp
next
  case (Cons item items)
  obtain k i where item: "item = (k, i)" by (cases item)
  show ?case
    by (simp add: item split_beta Cons.IH split: option.split bool.split)
qed

lemma sweep_completes:
  "store_all named items \<Longrightarrow> list_all (scannable cfg) us \<Longrightarrow>
   fst (sweep cfg serve eg us items st) = Completed"
proof (induction items arbitrary: st)
  case Nil
  show ?case by simp
next
  case (Cons item items)
  obtain k i where item: "item = (k, i)" by (cases item)
  from Cons.prems(1) have rest: "store_all named items" and i: "named i"
    by (simp_all add: store_all_def item)
  have o: "fst (offboard cfg serve eg us bid n st)" for bid n st
    using remove_from_all_groups_scans [OF Cons.prems(2), of serve bid "decide (D_Offboard n) st"]
    by (simp add: offboard_def split_beta split: bool.split)
  from i show ?case
    by (auto simp: item split_beta named_def o Cons.IH [OF rest Cons.prems(2)]
        split: option.split bool.split)
qed

lemma pages_member_ids:
  "pages serve g tok w r rs w' \<Longrightarrow> member_ids serve \<Longrightarrow> None \<notin> set (listed r)"
proof (induction rule: pages.induct)
  case (pages_raised w tok e w')
  show ?case by simp
next
  case (pages_last w tok status b w')
  then have "None \<notin> set (body_members b)" unfolding member_ids_def by blast
  then show ?case by simp
next
  case (pages_more w tok status b w1 r rs w')
  then have "None \<notin> set (body_members b)" unfolding member_ids_def by blast
  with pages_more show ?case by (cases r) auto
qed

lemma get_group_members_returns:
  assumes le: "listings_end serve"
  shows "\<exists>ms st'. get_group_members serve g st = Some (ms, st') \<and>
           (member_ids serve \<longrightarrow> None \<notin> set ms)"
proof -
  from le obtain r rs w' where p: "pages serve g None (world st) r rs w'"
    unfolding listings_end_def by blast
  from members_loop_pages [OF p refl, of "[]"]
  have "get_group_members serve g st = Some (listed r, st\<lparr>world := w', calls := calls st @ rs\<rparr>)"
    by (cases r) (simp_all add: get_group_members_def)
  with pages_member_ids [OF p] show ?thesis by blast
qed

lemma process_groups_returns:
  assumes le: "listings_end serve"
  shows "\<exists>r. process_groups cfg serve eg gs ast = Some r \<and> (member_ids serve \<longrightarrow> fst r \<noteq> None)"
proof (induction gs arbitrary: ast)
  case Nil
  show ?case by simp
next
  case (Cons g gs)
  obtain a st where ast: "ast = (a, st)" by (cases ast)
  let ?c = "create_bi_group cfg serve g st"
  show ?case
  proof (cases "truthy (fst ?c)")
    case False
    with Cons.IH [of "(a, decide (D_SkipGroup g) (snd ?c))"] show ?thesis
      by (simp add: ast split_beta)
  next
    case True
    from get_group_members_returns [OF le, of g "snd ?c"] obtain ms st2 where
      m: "get_group_members serve g (snd ?c) = Some (ms, st2)"
      and i: "member_ids serve \<longrightarrow> None \<notin> set ms" by blast
    let ?p = "process_members cfg serve eg g (case fst ?c of Some g \<Rightarrow> g | None \<Rightarrow> []) ms (a, st2)"
    have ids: "member_ids serve \<longrightarrow> fst ?p \<noteq> None"
      using i process_members_ids [of ms cfg serve eg g _ "(a, st2)"] by blast
    show ?thesis
    proof (cases "fst ?p")
      case None
      with ids True m show ?thesis
        by (cases ?p) (auto simp: ast split_beta)
    next
      case (Some a3)
      with Cons.IH [of "(a3, snd ?p)"] True m show ?thesis
        by (simp add: ast split_beta)
    qed
  qed
qed

lemma reconcile_returns:
  assumes le: "listings_end serve"
  shows "\<exists>out st'. reconcile cfg serve eg st = Some (out, st') \<and>
     (case fst (list_bi_users cfg serve st) of
        Inl stop \<Rightarrow> out = stop
      | Inr us \<Rightarrow>
          out \<noteq> Aborted \<and> (list_ex seed_stop us \<longrightarrow> out = Crashed) \<and>
          (member_ids serve \<and> list_all (scannable cfg) us \<and> \<not> list_ex seed_stop us \<longrightarrow>
             out = Completed))"
proof (cases "fst (list_bi_users cfg serve st)")
  case (Inl stop)
  then show ?thesis by (simp add: reconcile_def split_beta)
next
  case (Inr us)
  let ?st1 = "snd (list_bi_users cfg serve st)"
  show ?thesis
  proof (cases "fst (seed_users us [] ?st1)")
    case None
    with Inr seed_users_stop [of us "[]" ?st1] show ?thesis
      by (simp add: reconcile_def split_beta)
  next
    case (Some a1)
    with seed_users_stop [of us "[]" ?st1] have ns: "\<not> list_ex seed_stop us" by simp
    have n1: "store_all named a1"
      by (rule seed_users_named [OF _ Some]) (simp add: store_all_def)
    from process_groups_returns [OF le, of cfg eg "GWS_GROUPS cfg" "(a1, snd (seed_users us [] ?st1))"]
    obtain r where p: "process_groups cfg serve eg (GWS_GROUPS cfg)
        (a1, snd (seed_users us [] ?st1)) = Some r"
      and i: "member_ids serve \<longrightarrow> fst r \<noteq> None" by blast
    show ?thesis
    proof (cases "fst r")
      case None
      with Inr Some p i ns show ?thesis
        by (cases r) (auto simp: reconcile_def split_beta)
    next
      case (Some a3)
      then obtain st3 where r: "r = (Some a3, st3)" by (cases r) simp
      have "store_all named a3"
        by (rule process_groups_store [of named cfg serve eg, OF process_member_named _ p [unfolded r]])
           (simp_all add: n1)
      from sweep_completes [OF this, of cfg us serve eg st3]
        sweep_not_aborted [of cfg serve eg us a3 st3]
      show ?thesis
        using Inr \<open>fst (seed_users us [] ?st1) = Some a1\<close> p r ns
        by (cases "sweep cfg serve eg us a3 st3") (auto simp: reconcile_def split_beta)
    qed
  qed
qed

section \<open>Servers that differ in one reply\<close>

lemma call_same_but:
  "same_but q serve serve' \<Longrightarrow> r \<noteq> q \<Longrightarrow> call serve' r st = call serve r st"
  by (simp add: same_but_def call_def)

lemma members_loop_same_but_le:
  assumes "members_loop serve g t acc st = Some y"
  shows "\<forall>serve'. same_but (ScimUsersFilterUserName x) serve serve' \<longrightarrow>
           members_loop serve' g t acc st = Some y"
proof (rule members_loop.raw_induct
    [where P = "\<lambda>serve g t acc st y.
        \<forall>serve'. same_but (ScimUsersFilterUserName x) serve serve' \<longrightarrow>
          members_loop serve' g t acc st = Some y", OF _ assms])
  fix loop :: "'a server \<Rightarrow> string \<Rightarrow> string option \<Rightarrow> string option list \<Rightarrow> 'a run \<Rightarrow>
      (string option list \<times> 'a run) option"
    and serve g t acc st y
  assume IH: "\<And>serve g t acc st y. loop serve g t acc st = Some y \<Longrightarrow>
      \<forall>serve'. same_but (ScimUsersFilterUserName x) serve serve' \<longrightarrow>
        members_loop serve' g t acc st = Some y"
  assume body: "(case call serve (GwsMembersList g t) st of
        (Raised e, st') \<Rightarrow> Some ([], st')
      | (Reply status results, st') \<Rightarrow>
          if truthy (body_next results)
          then loop serve g (body_next results) (acc @ body_members results) st'
          else Some (acc @ body_members results, st')) = Some y"
  show "\<forall>serve'. same_but (ScimUsersFilterUserName x) serve serve' \<longrightarrow>
          members_loop serve' g t acc st = Some y"
  proof (intro allI impI)
    fix serve'
    assume sb: "same_but (ScimUsersFilterUserName x) serve serve'"
    have c: "call serve' (GwsMembersList g t) st = call serve (GwsMembersList g t) st"
      by (rule call_same_but [OF sb]) simp
    obtain r st1 where r: "call serve (GwsMembersList g t) st = (r, st1)"
      by (cases "call serve (GwsMembersList g t) st")
    show "members_loop serve' g t acc st = Some y"
    proof (cases r)
      case (Raised e)
      with body r c show ?thesis by (subst members_loop.simps) simp
    next
      case (Reply status b)
      show ?thesis
      proof (cases "truthy (body_next b)")
        case True
        with body r Reply have "loop serve g (body_next b) (acc @ body_members b) st1 = Some y"
          by simp
        from IH [OF this] sb
        have "members_loop serve' g (body_next b) (acc @ body_members b) st1 = Some y"
          by blast
        with r c Reply True show ?thesis by (subst members_loop.simps) simp
      next
        case False
        with body r c Reply show ?thesis by (subst members_loop.simps) simp
      qed
    qed
  qed
qed

lemma same_but_sym: "same_but q serve serve' \<Longrightarrow> same_but q serve' serve"
  by (simp add: same_but_def)

lemma get_group_members_same_but:
  assumes sb: "same_but (ScimUsersFilterUserName x) serve serve'"
  shows "get_group_members serve' g st = get_group_members serve g st"
proof (cases "members_loop serve g None [] st")
  case None
  show ?thesis
  proof (cases "members_loop serve' g None [] st")
    case None
    with \<open>members_loop serve g None [] st = None\<close> show ?thesis
      by (simp add: get_group_members_def)
  next
    case (Some y)
    from members_loop_same_but_le [OF Some, of x] same_but_sym [OF sb] None
    show ?thesis by auto
  qed
next
  case (Some y)
  from members_loop_same_but_le [OF Some, of x] sb Some show ?thesis
    by (auto simp: get_group_members_def)
qed

lemma process_member_same_but:
  assumes sb: "same_but (ScimUsersFilterUserName x) serve serve'"
  shows "process_member cfg serve' eg ge gid u ast = process_member cfg serve eg ge gid u ast"
proof -
  have c: "call serve' r st = call serve r st" if "r \<noteq> ScimUsersFilterUserName x" for r st
    using call_same_but [OF sb that] .
  have 1: "get_user_details cfg serve' u st = get_user_details cfg serve u st" for st
    by (auto simp: get_user_details_def c Let_def split: prod.splits response.splits body.splits option.splits)
  have 2: "create_or_update_bi_user cfg serve' d st = create_or_update_bi_user cfg serve d st"
    for d st
    by (auto simp: create_or_update_bi_user_def c Let_def split: prod.splits response.splits body.splits option.splits)
  have 3: "add_user_to_group cfg serve' b gid st = add_user_to_group cfg serve b gid st"
    for b st
    by (auto simp: add_user_to_group_def c Let_def split: prod.splits response.splits body.splits option.splits)
  have 4: "get_bi_enrollment_status serve' b st = get_bi_enrollment_status serve b st" for b st
    by (auto simp: get_bi_enrollment_status_def c Let_def split: prod.splits response.splits body.splits option.splits)
  have 5: "update_byid_enrolled_group cfg serve' eg e m st =
           update_byid_enrolled_group cfg serve eg e m st" for e m st
    by (auto simp: update_byid_enrolled_group_def c Let_def split: prod.splits response.splits body.splits option.splits)
  show ?thesis
    by (auto simp: process_member_def 1 2 3 4 5 Let_def split: prod.splits option.splits)
qed

lemma process_members_same_but:
  "same_but (ScimUsersFilterUserName x) serve serve' \<Longrightarrow>
   process_members cfg serve' eg ge gid ms ast = process_members cfg serve eg ge gid ms ast"
  by (induction ms arbitrary: ast) (simp_all add: process_member_same_but split: option.split)

lemma process_groups_same_but:
  assumes sb: "same_but (ScimUsersFilterUserName x) serve serve'"
  shows "process_groups cfg serve' eg gs ast = process_groups cfg serve eg gs ast"
proof (induction gs arbitrary: ast)
  case Nil
  show ?case by simp
next
  case (Cons g gs)
  have c: "call serve' r st = call serve r st" if "r \<noteq> ScimUsersFilterUserName x" for r st
    using call_same_but [OF sb that] .
  have 1: "create_bi_group cfg serve' g st = create_bi_group cfg serve g st" for st
    by (auto simp: create_bi_group_def c Let_def split: prod.splits response.splits body.splits option.splits)
  show ?case
    by (cases ast)
      (auto simp: 1 get_group_members_same_but [OF sb] process_members_same_but [OF sb] Cons.IH
        split: prod.splits option.splits)
qed

lemma sweep_same_but:
  assumes sb: "same_but (ScimUsersFilterUserName x) serve serve'"
  shows "sweep cfg serve' eg us items st = sweep cfg serve eg us items st"
proof -
  have c: "call serve' r st = call serve r st" if "r \<noteq> ScimUsersFilterUserName x" for r st
    using call_same_but [OF sb that] .
  have 1: "remove_user_from_group cfg serve' u g st = remove_user_from_group cfg serve u g st"
    for u g st
    by (auto simp: remove_user_from_group_def c Let_def split: prod.splits response.splits body.splits option.splits)
  have 2: "remove_listed_groups cfg serve' u grefs st = remove_listed_groups cfg serve u grefs st"
    for u grefs st
    by (induction grefs arbitrary: st) (simp_all add: 1 split: option.split)
  have 3: "remove_from_all_groups cfg serve' b l st = remove_from_all_groups cfg serve b l st"
    for b l st
    by (induction l arbitrary: st) (auto simp: 2 split: option.splits prod.splits bool.splits)
  have 4: "suspend_user cfg serve' u st = suspend_user cfg serve u st" for u st
    by (auto simp: suspend_user_def c Let_def split: prod.splits response.splits body.splits option.splits)
  have 5: "update_byid_enrolled_group cfg serve' eg e m st =
           update_byid_enrolled_group cfg serve eg e m st" for e m st
    by (auto simp: update_byid_enrolled_group_def c Let_def split: prod.splits response.splits body.splits option.splits)
  have 6: "get_bi_enrollment_status serve' b st = get_bi_enrollment_status serve b st" for b st
    by (auto simp: get_bi_enrollment_status_def c Let_def split: prod.splits response.splits body.splits option.splits)
  have 7: "offboard cfg serve' eg us b n st = offboard cfg serve eg us b n st" for b n st
    by (auto simp: offboard_def 3 4 5 split: prod.splits bool.splits)
  have 8: "refresh_enrollment cfg serve' eg b n st = refresh_enrollment cfg serve eg b n st"
    for b n st
    by (auto simp: refresh_enrollment_def 5 6 split: prod.splits)
  show ?thesis
    by (induction items arbitrary: st)
       (auto simp: 7 8 split: option.splits prod.splits bool.splits)
qed

lemma reconcile_same_but:
  assumes sb: "same_but (ScimUsersFilterUserName x) serve serve'"
  shows "reconcile cfg serve' eg st = reconcile cfg serve eg st"
proof -
  have c: "call serve' r st = call serve r st" if "r \<noteq> ScimUsersFilterUserName x" for r st
    using call_same_but [OF sb that] .
  have 1: "list_bi_users cfg serve' st = list_bi_users cfg serve st"
    by (auto simp: list_bi_users_def c Let_def split: prod.splits response.splits body.splits option.splits)
  show ?thesis
    by (auto simp: reconcile_def 1 process_groups_same_but [OF sb] sweep_same_but [OF sb]
        split: prod.splits sum.splits option.splits)
qed

section \<open>Two passes on the snapshot\<close>

lemma live_pass_snapshot:
  "main live_cfg fake_serve snapshot =
   Some
  (Completed,
   \<lparr>world =
      \<lparr>f_users =
         [\<lparr>u_id = ''b1'', userName = ''bob@co'', active = False,
             externalId = Some ''100000000000000000002'',
             u_givenName = ''Bob'', u_familyName = ''B'', u_groups = []\<rparr>,
          \<lparr>u_id = ''nnn'', userName = ''ann@co'', active = True,
             externalId = Some ''100000000000000000001'',
             u_givenName = ''Ann'', u_familyName = ''A'', u_groups = []\<rparr>],
         f_groups =
           [\<lparr>g_id = ''g1'', displayName = ''GoogleSCIM_eng@co'',
               g_members = [''nnn'']\<rparr>],
         f_passkeys = [''b1''],
         s_members = [(''eng@co'', [''100000000000000000001''])],
         s_users =
           [\<lparr>gu_id = ''100000000000000000001'', primaryEmail = ''ann@co'',
               givenName = ''Ann'', familyName = ''A'', suspended = False\<rparr>],
         s_enrollment = [(''BYID_Enrolled@co'', [])]\<rparr>,
      calls =
        [GwsGroupsGet ''BYID_Enrolled@co'',
         ScimUsersFilterUserName ''will.may@beyondidentity.dev'',
         ScimUsersList, ScimGroupsFilter ''GoogleSCIM_eng@co'',
         GwsMembersList ''eng@co'' None,
         GwsUsersGet ''100000000000000000001'',
         ScimUsersFilterExternalId ''100000000000000000001'',
         ScimUsersPost
          \<lparr>p_userName = ''ann@co'', p_givenName = ''Ann'',
             p_familyName = ''A'', p_active = True,
             p_externalId = ''100000000000000000001''\<rparr>,
         ScimGroupGet ''g1'',
         ScimGroupPut ''g1''
          \<lparr>g_id = ''g1'', displayName = ''GoogleSCIM_eng@co'',
             g_members = [''b1'', ''nnn'']\<rparr>,
         NativeUserGet ''nnn'',
         GwsMembersDelete ''BYID_Enrolled@co'' ''ann@co'',
         ScimGroupGet ''g1'',
         ScimGroupPut ''g1''
          \<lparr>g_id = ''g1'', displayName = ''GoogleSCIM_eng@co'',
             g_members = [''nnn'']\<rparr>,
         ScimUserGet ''b1'',
         ScimUserPutResource ''b1''
          \<lparr>u_id = ''b1'', userName = ''bob@co'', active = False,
             externalId = Some ''100000000000000000002'',
             u_givenName = ''Bob'', u_familyName = ''B'', u_groups = []\<rparr>,
         GwsMembersDelete ''BYID_Enrolled@co'' ''bob@co'',
         NativeUserGet ''nnn'',
         GwsMembersDelete ''BYID_Enrolled@co'' ''ann@co''],
      decided =
        [D_Create ''ann@co'', D_Add ''nnn'' ''g1'', D_Offboard ''bob@co'',
         D_Remove ''b1'' ''g1'', D_Suspend ''b1'',
         D_StillPresent ''ann@co'']\<rparr>)"
  by code_simp

lemma dry_pass_snapshot:
  "main dry_cfg fake_serve snapshot =
   Some
  (Completed,
   \<lparr>world =
      \<lparr>f_users =
         [\<lparr>u_id = ''b1'', userName = ''bob@co'', active = True,
             externalId = Some ''100000000000000000002'',
             u_givenName = ''Bob'', u_familyName = ''B'', u_groups = []\<rparr>],
         f_groups =
           [\<lparr>g_id = ''g1'', displayName = ''GoogleSCIM_eng@co'',
               g_members = [''b1'']\<rparr>],
         f_passkeys = [''b1''],
         s_members = [(''eng@co'', [''100000000000000000001''])],
         s_users =
           [\<lparr>gu_id = ''100000000000000000001'', primaryEmail = ''ann@co'',
               givenName = ''Ann'', familyName = ''A'', suspended = False\<rparr>],
         s_enrollment = [(''BYID_Enrolled@co'', [''bob@co''])]\<rparr>,
      calls =
        [ScimUsersFilterUserName ''will.may@beyondidentity.dev'',
         ScimGroupsFilter ''GoogleSCIM_eng@co'',
         GwsMembersList ''eng@co'' None,
         ScimUsersFilterExternalId ''100000000000000000001'',
         ScimGroupGet ''g1'', NativeUserGet ''test-user-id'',
         NativeUserGet ''test-user-id''],
      decided =
        [D_Create ''test_100000000000000000001@example.com'',
         D_Add ''test-user-id'' ''g1'',
         D_StillPresent ''test_100000000000000000001@example.com'']\<rparr>)"
  by code_simp

section \<open>Decisions and requests of a dry run\<close>

lemma pass_request_dry:
  "TEST_MODE cfg \<Longrightarrow> pass_request cfg r \<Longrightarrow> \<not> mutating r \<and> \<not> skipped_read r"
  by (cases r) simp_all

lemma member_decision_dry: "TEST_MODE cfg \<Longrightarrow> member_decision cfg d \<Longrightarrow> dry_decision d"
  by (cases d) simp_all

lemma sweep_dry:
  "store_all dry_record items \<Longrightarrow> extends (pass_request cfg) dry_decision st0 st \<Longrightarrow>
   extends (pass_request cfg) dry_decision st0 (snd (sweep cfg serve eg us items st))"
proof (induction items arbitrary: st)
  case Nil
  then show ?case by simp
next
  case (Cons item items)
  obtain k i where item: "item = (k, i)" by (cases item)
  from Cons.prems(1) have rest: "store_all dry_record items" and i: "dry_record i"
    by (simp_all add: store_all_def item)
  show ?case
  proof (cases "is_scim_user i")
    case False
    with Cons.IH [OF rest] Cons.prems(2) show ?thesis
      by (simp add: item extends_decide)
  next
    case True
    with i obtain n where n: "username i = Some n" "fabricated n" "was_in_group i"
      by (auto simp: dry_record_def split: option.splits)
    from Cons.prems(2) have "extends (pass_request cfg) dry_decision st0
        (refresh_enrollment cfg serve eg (bi_id i) n st)"
      by (rule refresh_enrollment_extends) (simp add: n)
    from Cons.IH [OF rest this] True n show ?thesis
      by (simp add: item)
  qed
qed

lemma reconcile_dry_run:
  assumes r: "reconcile cfg serve eg st = Some (out, st')" and t: "TEST_MODE cfg"
  shows "extends (pass_request cfg) dry_decision st st'"
proof -
  from t have l: "list_bi_users cfg serve st = (Inr [], st)"
    by (simp add: list_bi_users_def)
  from r l obtain p where
    p: "process_groups cfg serve eg (GWS_GROUPS cfg) ([], st) = Some p"
    by (cases "process_groups cfg serve eg (GWS_GROUPS cfg) ([], st)")
       (auto simp: reconcile_def)
  from process_groups_extends [OF p, of st] have "extends (pass_request cfg) (member_decision cfg) st (snd p)"
    by simp
  then have e: "extends (pass_request cfg) dry_decision st (snd p)"
    by (rule extends_mono) (simp_all add: member_decision_dry [OF t])
  show ?thesis
  proof (cases "fst p")
    case None
    with r l p e show ?thesis by (cases p) (simp add: reconcile_def)
  next
    case (Some a3)
    then obtain st3 where p3: "p = (Some a3, st3)" by (cases p) simp
    have "store_all dry_record a3"
      by (rule process_groups_store [of dry_record cfg serve eg, OF process_member_dry [OF t] _ p [unfolded p3]])
         (simp_all add: store_all_def)
    from sweep_dry [OF this, of cfg st st3 serve eg "[]"] e r l p p3 show ?thesis
      by (simp add: reconcile_def)
  qed
qed

section \<open>The start of a pass\<close>

lemma main_aborts:
  "\<not> truthy (fst (create_or_get_byid_enrolled_group cfg serve (start w))) \<Longrightarrow>
   main cfg serve w = Some (Aborted, snd (create_or_get_byid_enrolled_group cfg serve (start w)))"
  by (simp add: main_def split_beta)

lemma main_reconciles:
  "truthy (fst (create_or_get_byid_enrolled_group cfg serve (start w))) \<Longrightarrow>
   main cfg serve w =
     reconcile cfg serve (py_str (fst (create_or_get_byid_enrolled_group cfg serve (start w))))
       (snd (get_detailed_user_info serve ''will.may@beyondidentity.dev''
          (snd (create_or_get_byid_enrolled_group cfg serve (start w)))))"
  by (simp add: main_def split_beta)

lemma get_detailed_user_info_snd:
  "snd (get_detailed_user_info serve n st) = snd (call serve (ScimUsersFilterUserName n) st)"
  by (simp add: get_detailed_user_info_def split_beta split: response.split)

lemma list_bi_users_fst:
  "fst (list_bi_users cfg serve st) =
     (if TEST_MODE cfg then Inr []
      else (case fst (serve (world st) ScimUsersList) of
              Raised e \<Rightarrow> Inl Crashed
            | Reply status b \<Rightarrow>
                if status \<noteq> 200 then Inl Aborted
                else (case resources_users b of None \<Rightarrow> Inl Crashed | Some us \<Rightarrow> Inr us)))"
  by (simp add: list_bi_users_def call_def split_beta split: response.split option.split)

lemma create_or_get_byid_enrolled_group_dry:
  "TEST_MODE cfg \<Longrightarrow>
   create_or_get_byid_enrolled_group cfg serve st = (Some (enrolled_group_email cfg), st)"
  by (simp add: create_or_get_byid_enrolled_group_def)

text \<open>The reference systems: every listing is one page, and every member has an id.\<close>

lemma pages_fake_serve:
  "\<exists>r rs w'. pages fake_serve g tok w r rs w'"
proof (cases "map_of (s_members w) g")
  case None
  then have "fake_serve w (GwsMembersList g tok) =
      (Raised (HttpError ''Resource Not Found: groupKey notFound''), w)" by simp
  from pages_raised [of fake_serve, OF this] show ?thesis by blast
next
  case (Some ms)
  then have "fake_serve w (GwsMembersList g tok) = (Reply 200 (Members (map Some ms) None), w)"
    by simp
  from pages_last [of fake_serve, OF this] show ?thesis by auto
qed

lemma listings_end_fake_serve: "listings_end fake_serve"
  unfolding listings_end_def using pages_fake_serve by blast

lemma member_ids_fake_serve: "member_ids fake_serve"
  by (auto simp: member_ids_def split: option.splits)

section \<open>Dry run\<close>

text \<open>
  C1, as the code has it.  A pass with the dry-run flag set, on systems whose member
  listings end, returns and does not return early: it completes, unless a listed member
  has no id, which raises out of \<^verbatim>\<open>main\<close>.  It issues no mutating call, and leaves
  out three reads a live pass decides on: the lookup of the enrollment group, the listing
  of the target's users and the reads of source users.  The record store is seeded empty
  and user details are fabricated, so its decisions are: to create, update or keep a user
  under a fabricated address, to add a user to a group, to skip a group and to skip a
  record that is no SCIM user; never to skip a member for want of details, to offboard,
  to remove or to suspend.
\<close>

theorem dry_run_pass:
  assumes t: "TEST_MODE cfg" and le: "listings_end serve"
  shows "\<exists>out st. main cfg serve w = Some (out, st) \<and> out \<noteq> Aborted \<and>
           (member_ids serve \<longrightarrow> out = Completed) \<and>
           list_all (\<lambda>r. \<not> mutating r \<and> \<not> skipped_read r) (calls st) \<and>
           list_all dry_decision (decided st)"
proof -
  let ?q = "ScimUsersFilterUserName ''will.may@beyondidentity.dev''"
  let ?st1 = "snd (get_detailed_user_info serve ''will.may@beyondidentity.dev'' (start w))"
  have st1: "calls ?st1 = [?q]" "decided ?st1 = []"
    by (simp_all add: get_detailed_user_info_snd call_def start_def split_beta)
  have m: "main cfg serve w = reconcile cfg serve (enrolled_group_email cfg) ?st1"
    using t main_reconciles [of cfg serve w]
    by (simp add: create_or_get_byid_enrolled_group_dry enrolled_group_email_def)
  from reconcile_returns [OF le, of cfg "enrolled_group_email cfg" ?st1] t
  obtain out st where r: "reconcile cfg serve (enrolled_group_email cfg) ?st1 = Some (out, st)"
    and o: "out \<noteq> Aborted" "member_ids serve \<longrightarrow> out = Completed"
    by (auto simp: list_bi_users_fst)
  from reconcile_dry_run [OF r t] st1
  obtain rs where rs: "calls st = ?q # rs" "list_all (pass_request cfg) rs"
    and ds: "list_all dry_decision (decided st)"
    by (auto simp: extends_def)
  from rs(2) t have "list_all (\<lambda>r. \<not> mutating r \<and> \<not> skipped_read r) rs"
    unfolding list_all_iff using pass_request_dry by blast
  with rs(1) have "list_all (\<lambda>r. \<not> mutating r \<and> \<not> skipped_read r) (calls st)"
    by simp
  with m r o ds show ?thesis by simp
qed

theorem dry_run_pass_witness:
  "TEST_MODE dry_cfg \<and> listings_end fake_serve \<and> member_ids fake_serve \<and>
   (\<exists>out st. main dry_cfg fake_serve snapshot = Some (out, st) \<and> out = Completed \<and>
      list_all (\<lambda>r. \<not> mutating r \<and> \<not> skipped_read r) (calls st) \<and>
      list_all dry_decision (decided st))"
proof -
  have t: "TEST_MODE dry_cfg" by (simp add: dry_cfg_def)
  from dry_run_pass [OF t listings_end_fake_serve, of snapshot] member_ids_fake_serve
    listings_end_fake_serve t
  show ?thesis by auto
qed

text \<open>
  C1 as stated fails: on the snapshot the live pass creates Ann and offboards Bob, while
  the dry run decides to create a fabricated user and offboards nobody.
\<close>

theorem dry_run_decisions_counterexample:
  "decisions_of (main live_cfg fake_serve snapshot) =
     Some [D_Create ''ann@co'', D_Add ''nnn'' ''g1'', D_Offboard ''bob@co'',
           D_Remove ''b1'' ''g1'', D_Suspend ''b1'', D_StillPresent ''ann@co''] \<and>
   decisions_of (main dry_cfg fake_serve snapshot) =
     Some [D_Create ''test_100000000000000000001@example.com'',
           D_Add ''test-user-id'' ''g1'',
           D_StillPresent ''test_100000000000000000001@example.com'']"
  by (simp add: decisions_of_def live_pass_snapshot dry_pass_snapshot)

text \<open>A dry run on a member listing that holds an entry without id ends at that entry.\<close>

lemma dry_run_member_without_id:
  "map_option fst (main dry_cfg no_id_member snapshot) = Some Crashed \<and>
   decisions_of (main dry_cfg no_id_member snapshot) = Some []"
  by code_simp

section \<open>How a pass ends: the claims\<close>








section \<open>Idempotent operations of the target-directory client\<close>

text \<open>
  C8, as the code has it.  Suspending a user the target shows inactive, and removing a
  user the group does not list, succeed after the read alone, with no write.  A read that
  the target answers with any status other than 200, NotFound included, makes either
  operation fail (\<open>False\<close>) after that read.
\<close>

theorem remove_suspend_results:
  "(serve (world st) (ScimUserGet u1) = (Reply 200 (User ud), w1) \<longrightarrow> \<not> active ud \<longrightarrow>
      suspend_user cfg serve u1 st =
        (True, st\<lparr>world := w1, calls := calls st @ [ScimUserGet u1]\<rparr>)) \<and>
   (serve (world st) (ScimGroupGet g2) = (Reply 200 (Group gd), w2) \<longrightarrow>
      u2 \<notin> set (g_members gd) \<longrightarrow>
      remove_user_from_group cfg serve u2 g2 st =
        (True, st\<lparr>world := w2, calls := calls st @ [ScimGroupGet g2]\<rparr>)) \<and>
   (serve (world st) (ScimUserGet u3) = (Reply status3 b3, w3) \<longrightarrow> status3 \<noteq> 200 \<longrightarrow>
      suspend_user cfg serve u3 st =
        (False, st\<lparr>world := w3, calls := calls st @ [ScimUserGet u3]\<rparr>)) \<and>
   (serve (world st) (ScimGroupGet g4) = (Reply status4 b4, w4) \<longrightarrow> status4 \<noteq> 200 \<longrightarrow>
      remove_user_from_group cfg serve u4 g4 st =
        (False, st\<lparr>world := w4, calls := calls st @ [ScimGroupGet g4]\<rparr>))"
  by (auto simp: suspend_user_def remove_user_from_group_def call_def split: body.splits)

theorem remove_suspend_results_witness:
  "half_gone () (ScimUserGet ''b1'') = (Reply 200 (User (bob\<lparr>active := False\<rparr>)), ()) \<and>
   \<not> active (bob\<lparr>active := False\<rparr>) \<and>
   suspend_user live_cfg half_gone ''b1'' (start ()) =
     (True, \<lparr>world = (), calls = [ScimUserGet ''b1''], decided = []\<rparr>) \<and>
   half_gone () (ScimGroupGet ''g1'') =
     (Reply 200 (Group \<lparr>g_id = ''g1'', displayName = ''GoogleSCIM_eng@co'',
                        g_members = []\<rparr>), ()) \<and>
   remove_user_from_group live_cfg half_gone ''b1'' ''g1'' (start ()) =
     (True, \<lparr>world = (), calls = [ScimGroupGet ''g1''], decided = []\<rparr>) \<and>
   half_gone () (ScimUserGet ''b2'') = (Reply 404 NoBody, ()) \<and>
   suspend_user live_cfg half_gone ''b2'' (start ()) =
     (False, \<lparr>world = (), calls = [ScimUserGet ''b2''], decided = []\<rparr>) \<and>
   half_gone () (ScimGroupGet ''g2'') = (Reply 404 NoBody, ()) \<and>
   remove_user_from_group live_cfg half_gone ''b1'' ''g2'' (start ()) =
     (False, \<lparr>world = (), calls = [ScimGroupGet ''g2''], decided = []\<rparr>)"
  using remove_suspend_results [where serve = half_gone and st = "start ()" and cfg = live_cfg
      and ?u1.0 = "''b1''" and ud = "bob\<lparr>active := False\<rparr>" and ?w1.0 = "()"
      and ?g2.0 = "''g1''" and ?u2.0 = "''b1''" and ?w2.0 = "()"
      and gd = "\<lparr>g_id = ''g1'', displayName = ''GoogleSCIM_eng@co'', g_members = []\<rparr>"
      and ?u3.0 = "''b2''" and ?status3.0 = 404 and ?b3.0 = NoBody and ?w3.0 = "()"
      and ?g4.0 = "''g2''" and ?u4.0 = "''b1''" and ?status4.0 = 404 and ?b4.0 = NoBody
      and ?w4.0 = "()"]
  by (simp add: half_gone_def start_def)

text \<open>
  C8 as stated fails: when the target answers NotFound, suspending and removing report
  failure, not success.
\<close>

theorem not_found_counterexample:
  "suspend_user live_cfg not_found ''b1'' (start ()) =
     (False, \<lparr>world = (), calls = [ScimUserGet ''b1''], decided = []\<rparr>) \<and>
   remove_user_from_group live_cfg not_found ''b1'' ''g1'' (start ()) =
     (False, \<lparr>world = (), calls = [ScimGroupGet ''g1''], decided = []\<rparr>)"
  by (simp add: suspend_user_def remove_user_from_group_def call_def not_found_def start_def)

section \<open>Looking a target group up before creating it\<close>

text \<open>
  Against the reference target, whose lookup answers 200, a second
  \<^verbatim>\<open>create_bi_group\<close> for the same source group returns the id the first one returned,
  after the lookup alone: it issues no create and leaves the target's groups as they
  were.
\<close>

lemma create_bi_group_twice:
  "fst (create_bi_group cfg fake_serve group_email
          (snd (create_bi_group cfg fake_serve group_email st))) =
     fst (create_bi_group cfg fake_serve group_email st) \<and>
   fst (create_bi_group cfg fake_serve group_email st) \<noteq> None \<and>
   calls (snd (create_bi_group cfg fake_serve group_email
          (snd (create_bi_group cfg fake_serve group_email st)))) =
     calls (snd (create_bi_group cfg fake_serve group_email st)) @
       [ScimGroupsFilter (BI_GROUP_PREFIX cfg @ group_email)] \<and>
   f_groups (world (snd (create_bi_group cfg fake_serve group_email
          (snd (create_bi_group cfg fake_serve group_email st))))) =
     f_groups (world (snd (create_bi_group cfg fake_serve group_email st)))"
proof (cases "filter (\<lambda>g. displayName g = BI_GROUP_PREFIX cfg @ group_email)
    (f_groups (world st)) = []")
  case True
  then show ?thesis
    by (simp add: create_bi_group_def call_def Let_def)
next
  case False
  then show ?thesis
    by (simp add: create_bi_group_def call_def Let_def)
qed

text \<open>
  C5 fails on the code.  \<^verbatim>\<open>create_bi_group\<close> decodes the lookup only when it answers
  200, and has no branch for any other status: the control falls through to the create.
  On the snapshot, where the group \<^verbatim>\<open>GoogleSCIM_eng@co\<close> exists, with a lookup that
  answers 500 two calls for \<^verbatim>\<open>eng@co\<close> issue two creates, return two different ids, and
  leave three groups of that display name.
\<close>

theorem create_bi_group_lookup_error:
  "fst (create_bi_group live_cfg lookup_fails ''eng@co'' (start snapshot)) = Some ''nnn'' \<and>
   fst (create_bi_group live_cfg lookup_fails ''eng@co''
          (snd (create_bi_group live_cfg lookup_fails ''eng@co'' (start snapshot)))) =
     Some ''nnnn'' \<and>
   calls (snd (create_bi_group live_cfg lookup_fails ''eng@co''
          (snd (create_bi_group live_cfg lookup_fails ''eng@co'' (start snapshot))))) =
     [ScimGroupsFilter ''GoogleSCIM_eng@co'', ScimGroupsPost ''GoogleSCIM_eng@co'',
      ScimGroupsFilter ''GoogleSCIM_eng@co'', ScimGroupsPost ''GoogleSCIM_eng@co''] \<and>
   map (\<lambda>g. (g_id g, displayName g))
     (f_groups (world (snd (create_bi_group live_cfg lookup_fails ''eng@co''
          (snd (create_bi_group live_cfg lookup_fails ''eng@co'' (start snapshot))))))) =
     [(''g1'', ''GoogleSCIM_eng@co''), (''nnn'', ''GoogleSCIM_eng@co''),
      (''nnnn'', ''GoogleSCIM_eng@co'')]"
  by code_simp

section \<open>The lookup of the hardcoded user\<close>

lemma reconcile_extends:
  assumes r: "reconcile cfg serve eg st = Some (out, st')"
  shows "extends (pass_request cfg) (\<lambda>d. True) st st'"
proof -
  let ?l = "list_bi_users cfg serve st"
  have e1: "extends (pass_request cfg) (\<lambda>d. True) st (snd ?l)"
    by (rule list_bi_users_extends) simp
  show ?thesis
  proof (cases "fst ?l")
    case (Inl stop)
    with r e1 show ?thesis by (auto simp: reconcile_def split_beta)
  next
    case (Inr us)
    let ?s = "seed_users us [] (snd ?l)"
    from e1 have e2: "extends (pass_request cfg) (\<lambda>d. True) st (snd ?s)"
      by (rule seed_users_extends)
    show ?thesis
    proof (cases "fst ?s")
      case None
      with r Inr e2 show ?thesis by (auto simp: reconcile_def split_beta)
    next
      case (Some a1)
      with r Inr obtain p where
        p: "process_groups cfg serve eg (GWS_GROUPS cfg) (a1, snd ?s) = Some p"
        by (cases "process_groups cfg serve eg (GWS_GROUPS cfg) (a1, snd ?s)")
           (auto simp: reconcile_def split_beta)
      from process_groups_extends [OF p, of "snd ?s"]
      have "extends (pass_request cfg) (\<lambda>d. True) (snd ?s) (snd p)"
        by (intro member_decision_any) simp
      with e2 have e3: "extends (pass_request cfg) (\<lambda>d. True) st (snd p)"
        by (rule extends_trans)
      show ?thesis
      proof (cases "fst p")
        case None
        with r Inr Some p e3 show ?thesis
          by (cases p) (auto simp: reconcile_def split_beta)
      next
        case a3: (Some a3)
        from sweep_extends [OF e3, of serve eg us a3] r Inr Some p a3 show ?thesis
          by (cases p) (auto simp: reconcile_def split_beta)
      qed
    qed
  qed
qed

text \<open>
  C10.  Whatever the configuration, a pass that obtained the enrollment group next looks
  up the user name \<^verbatim>\<open>will.may@beyondidentity.dev\<close> in the target, once, before the
  listing of the target's users and everything after it; and what that lookup answers
  (found, not found, an error) changes nothing: two servers that differ only in that
  answer give the same pass.  On systems whose member listings end the pass returns, and
  the requests it issued are those that obtained the enrollment group, then that lookup,
  then requests of the reconciliation, none of which is a lookup by user name; a pass
  that did not obtain the enrollment group returns early without any other request.
\<close>

theorem hardcoded_lookup:
  assumes sb: "same_but (ScimUsersFilterUserName ''will.may@beyondidentity.dev'') serve serve'"
  shows "main cfg serve' w = main cfg serve w \<and>
         (listings_end serve \<longrightarrow>
            (\<exists>out st. main cfg serve w = Some (out, st) \<and>
               (if truthy (fst (create_or_get_byid_enrolled_group cfg serve (start w)))
                then \<exists>rs. calls st =
                        calls (snd (create_or_get_byid_enrolled_group cfg serve (start w))) @
                        ScimUsersFilterUserName ''will.may@beyondidentity.dev'' # rs \<and>
                      list_all (pass_request cfg) rs
                else out = Aborted \<and>
                     st = snd (create_or_get_byid_enrolled_group cfg serve (start w)))))"
proof
  let ?q = "ScimUsersFilterUserName ''will.may@beyondidentity.dev''"
  have c: "call serve' r st = call serve r st" if "r \<noteq> ?q" for r st
    using call_same_but [OF sb that] .
  have 1: "create_or_get_byid_enrolled_group cfg serve' st =
           create_or_get_byid_enrolled_group cfg serve st" for st
    by (auto simp: create_or_get_byid_enrolled_group_def c Let_def
        split: prod.splits response.splits)
  have "snd (call serve' ?q st) = snd (call serve ?q st)" for st
    using sb by (simp add: same_but_def call_def split_beta)
  then have 2: "snd (get_detailed_user_info serve' ''will.may@beyondidentity.dev'' st) =
           snd (get_detailed_user_info serve ''will.may@beyondidentity.dev'' st)" for st
    by (simp add: get_detailed_user_info_snd)
  show "main cfg serve' w = main cfg serve w"
    by (simp add: main_def 1 2 reconcile_same_but [OF sb] split_beta)
next
  let ?q = "ScimUsersFilterUserName ''will.may@beyondidentity.dev''"
  let ?c = "create_or_get_byid_enrolled_group cfg serve (start w)"
  let ?st2 = "snd (get_detailed_user_info serve ''will.may@beyondidentity.dev'' (snd ?c))"
  show "listings_end serve \<longrightarrow>
            (\<exists>out st. main cfg serve w = Some (out, st) \<and>
               (if truthy (fst ?c)
                then \<exists>rs. calls st = calls (snd ?c) @ ?q # rs \<and> list_all (pass_request cfg) rs
                else out = Aborted \<and> st = snd ?c))"
  proof
    assume le: "listings_end serve"
    show "\<exists>out st. main cfg serve w = Some (out, st) \<and>
               (if truthy (fst ?c)
                then \<exists>rs. calls st = calls (snd ?c) @ ?q # rs \<and> list_all (pass_request cfg) rs
                else out = Aborted \<and> st = snd ?c)"
    proof (cases "truthy (fst ?c)")
      case False
      with main_aborts [OF False] show ?thesis by simp
    next
      case True
      have st2: "calls ?st2 = calls (snd ?c) @ [?q]"
        by (simp add: get_detailed_user_info_snd call_def split_beta)
      from reconcile_returns [OF le, of cfg "py_str (fst ?c)" ?st2]
      obtain out st where r: "reconcile cfg serve (py_str (fst ?c)) ?st2 = Some (out, st)"
        by blast
      from reconcile_extends [OF r] st2
      have "\<exists>rs. calls st = calls (snd ?c) @ ?q # rs \<and> list_all (pass_request cfg) rs"
        by (auto simp: extends_def)
      with main_reconciles [OF True] r True show ?thesis by simp
    qed
  qed
qed

theorem hardcoded_lookup_witness:
  "same_but (ScimUsersFilterUserName ''will.may@beyondidentity.dev'') fake_serve will_found \<and>
   fst (will_found snapshot (ScimUsersFilterUserName ''will.may@beyondidentity.dev'')) \<noteq>
   fst (fake_serve snapshot (ScimUsersFilterUserName ''will.may@beyondidentity.dev'')) \<and>
   listings_end fake_serve \<and>
   truthy (fst (create_or_get_byid_enrolled_group live_cfg fake_serve (start snapshot))) \<and>
   main live_cfg will_found snapshot = main live_cfg fake_serve snapshot \<and>
   (\<exists>out st rs. main live_cfg fake_serve snapshot = Some (out, st) \<and>
      calls st =
        [GwsGroupsGet ''BYID_Enrolled@co'',
         ScimUsersFilterUserName ''will.may@beyondidentity.dev''] @ rs \<and>
      list_all (pass_request live_cfg) rs)"
proof -
  have sb: "same_but (ScimUsersFilterUserName ''will.may@beyondidentity.dev'')
      fake_serve will_found"
    by (simp add: same_but_def will_found_def)
  have d: "fst (will_found snapshot (ScimUsersFilterUserName ''will.may@beyondidentity.dev'')) \<noteq>
        fst (fake_serve snapshot (ScimUsersFilterUserName ''will.may@beyondidentity.dev''))"
    by (simp add: will_found_def snapshot_def bob_def)
  have c: "create_or_get_byid_enrolled_group live_cfg fake_serve (start snapshot) =
      (Some ''BYID_Enrolled@co'',
       \<lparr>world = snapshot, calls = [GwsGroupsGet ''BYID_Enrolled@co''], decided = []\<rparr>)"
    by (simp add: create_or_get_byid_enrolled_group_def enrolled_group_email_def live_cfg_def
        call_def start_def snapshot_def Let_def)
  from hardcoded_lookup [OF sb, of live_cfg snapshot] listings_end_fake_serve sb d c
  show ?thesis by auto
qed


end
